theory Spec2Isabelle
  imports Main
begin

section \<open>Data model\<close>

text \<open>
  The change-application engine of \<^verbatim>\<open>pull.go\<close>. A \<^verbatim>\<open>*File\<close> and a
  \<^verbatim>\<open>*Change\<close> are Go pointers: a nil \<^verbatim>\<open>Src\<close> or \<^verbatim>\<open>Dest\<close> is
  \<open>None\<close>, and dereferencing it is the outcome \<open>Panic\<close>. A Go map that is nil is
  \<open>None\<close>; a map that was made is \<open>Some m\<close>, also when it has no key.

  The declarations of \<^verbatim>\<open>File\<close>, \<^verbatim>\<open>Change\<close> and \<^verbatim>\<open>Commands\<close> are not part of
  the source: the records below have the fields that \<^verbatim>\<open>pull.go\<close> reads. The field
  \<^verbatim>\<open>Id\<close> of a file is called \<open>FileId\<close>, since \<open>Id\<close> is the identity relation of
  HOL. Time stamps are natural numbers and a file's content is a list of bytes.
\<close>

type_synonym time = nat
type_synonym bytes = "nat list"
type_synonym path = "string list"

record File =
  FileId :: string
  IsDir :: bool
  ModTime :: time
  BlobAt :: string
  MimeType :: string
  ExportLinks :: "(string \<rightharpoonup> string) option"

text \<open>
  Modelled from the spec: the method \<^verbatim>\<open>Op()\<close> of a Change is not part of the source.
  The spec gives it exactly the three values Add, Modify and Delete, computed by the
  resolver, so it is kept here as a field of the change.
\<close>

datatype operation = OpAdd | OpMod | OpDelete

record Change =
  Path :: string
  Src :: "File option"
  Dest :: "File option"
  Op :: operation

datatype errno = ENOENT | ENOTDIR | EEXIST | EISDIR

datatype error =
  PathError string string errno
  | ErrorString string

datatype 'a outcome = Return 'a | Panic

text \<open>
  What the remote answers to a download: the bytes of the body, and the read error that
  ends the body early if there is one (\<open>None\<close> is a clean end of file).
\<close>

datatype blob = Blob bytes "error option"

text \<open>
  The receiver \<^verbatim>\<open>g *Commands\<close>. \<^verbatim>\<open>g.context.AbsPathOf\<close> and
  \<^verbatim>\<open>g.rem.Download\<close> are not part of the source and are taken as parameters;
  the spec gives the transport the shape \<^verbatim>\<open>Download(id, exportURL) -> byteStream | error\<close>.
\<close>

record Commands =
  AbsPathOf :: "string \<Rightarrow> string"
  Download :: "string \<Rightarrow> string \<Rightarrow> error + blob"

section \<open>The world outside the program\<close>

text \<open>
  The local file system is a tree without permissions, links or a working directory: a
  map from the list of components of an absolute path to the node there. The root is
  always a directory. Beside it the world holds the clock, what was printed on standard
  output, the file handles and response bodies that are open, and the calls made to the
  transport.
\<close>

datatype node = Regular bytes time | Directory time

record world =
  fs :: "path \<Rightarrow> node option"
  clock :: time
  stdout :: string
  open_files :: "string list"
  open_bodies :: "(string \<times> string) list"
  downloads :: "(string \<times> string) list"

subsection \<open>Path names\<close>

fun split_slash :: "string \<Rightarrow> string list" where
  "split_slash [] = [[]]"
| "split_slash (c # cs) =
     (if c = CHR ''/'' then [] # split_slash cs
      else (case split_slash cs of
              [] \<Rightarrow> [[c]]
            | x # xs \<Rightarrow> (c # x) # xs))"

text \<open>
  The elements of a cleaned path (\<^verbatim>\<open>filepath.Clean\<close>): empty and \<^verbatim>\<open>.\<close>
  elements go, \<^verbatim>\<open>..\<close> takes the element before it away, and at the start of a
  rooted path it goes too. The accumulator holds the elements kept so far, last first.
\<close>

fun clean_elems :: "bool \<Rightarrow> string list \<Rightarrow> string list \<Rightarrow> string list" where
  "clean_elems rooted acc [] = rev acc"
| "clean_elems rooted acc (e # es) =
     (if e = [] \<or> e = ''.'' then clean_elems rooted acc es
      else if e = ''..'' then
        (case acc of
           [] \<Rightarrow> if rooted then clean_elems rooted acc es else clean_elems rooted (e # acc) es
         | a # as \<Rightarrow> if a = ''..'' then clean_elems rooted (e # acc) es
                     else clean_elems rooted as es)
      else clean_elems rooted (e # acc) es)"

fun join_slash :: "string list \<Rightarrow> string" where
  "join_slash [] = []"
| "join_slash [e] = e"
| "join_slash (e # es) = e @ ''/'' @ join_slash es"

definition filepath_Clean :: "string \<Rightarrow> string" where
  "filepath_Clean s =
     (let rooted = (s \<noteq> [] \<and> hd s = CHR ''/'');
          body = join_slash (clean_elems rooted [] (split_slash s))
      in if rooted then CHR ''/'' # body
         else if body = [] then ''.''
         else body)"

text \<open>
  \<^verbatim>\<open>filepath.Dir\<close>: all but the last element of the path, cleaned: the path up
  to and with its last separator goes through \<^verbatim>\<open>Clean\<close>.
\<close>

definition filepath_Dir :: "string \<Rightarrow> string" where
  "filepath_Dir s = filepath_Clean (rev (dropWhile (\<lambda>c. c \<noteq> CHR ''/'') (rev s)))"

text \<open>How the system resolves a path name: from the root, element by element.\<close>

definition components :: "string \<Rightarrow> path" where
  "components s = clean_elems True [] (split_slash s)"

subsection \<open>System calls\<close>

definition lookup :: "world \<Rightarrow> path \<Rightarrow> node option" where
  "lookup w p = (if p = [] then Some (Directory 0) else fs w p)"

text \<open>
  Walking down from the directory \<open>cur\<close> through the elements \<open>xs\<close>: the error of
  the first element that is missing or is not a directory.
\<close>

fun walk :: "world \<Rightarrow> path \<Rightarrow> string list \<Rightarrow> errno option" where
  "walk w cur [] = None"
| "walk w cur (x # xs) =
     (case fs w (cur @ [x]) of
        None \<Rightarrow> Some ENOENT
      | Some (Regular d t) \<Rightarrow> Some ENOTDIR
      | Some (Directory t) \<Rightarrow> walk w (cur @ [x]) xs)"

definition os_Stat :: "string \<Rightarrow> world \<Rightarrow> errno + node" where
  "os_Stat name w =
     (let p = components name in
      case walk w [] (butlast p) of
        Some e \<Rightarrow> Inl e
      | None \<Rightarrow>
          (case lookup w p of
             None \<Rightarrow> Inl ENOENT
           | Some n \<Rightarrow> Inr n))"

definition os_Mkdir :: "string \<Rightarrow> world \<Rightarrow> error option \<times> world" where
  "os_Mkdir name w =
     (let p = components name in
      case walk w [] (butlast p) of
        Some e \<Rightarrow> (Some (PathError ''mkdir'' name e), w)
      | None \<Rightarrow>
          (case lookup w p of
             Some n \<Rightarrow> (Some (PathError ''mkdir'' name EEXIST), w)
           | None \<Rightarrow> (None, w\<lparr>fs := (fs w)(p \<mapsto> Directory (clock w))\<rparr>)))"

text \<open>
  \<^verbatim>\<open>os.MkdirAll\<close>: a path that is a directory already is left alone and is no
  error; otherwise the missing directories are made from the top down, and an element
  that is a regular file is the error \<^verbatim>\<open>ENOTDIR\<close>.
\<close>

fun mkdirs :: "string \<Rightarrow> path \<Rightarrow> string list \<Rightarrow> world \<Rightarrow> error option \<times> world" where
  "mkdirs name cur [] w = (None, w)"
| "mkdirs name cur (x # xs) w =
     (case fs w (cur @ [x]) of
        Some (Directory t) \<Rightarrow> mkdirs name (cur @ [x]) xs w
      | Some (Regular d t) \<Rightarrow> (Some (PathError ''mkdir'' name ENOTDIR), w)
      | None \<Rightarrow>
          mkdirs name (cur @ [x]) xs (w\<lparr>fs := (fs w)(cur @ [x] \<mapsto> Directory (clock w))\<rparr>))"

definition os_MkdirAll :: "string \<Rightarrow> world \<Rightarrow> error option \<times> world" where
  "os_MkdirAll name w =
     (case os_Stat name w of
        Inr (Directory t) \<Rightarrow> (None, w)
      | Inr (Regular d t) \<Rightarrow> (Some (PathError ''mkdir'' name ENOTDIR), w)
      | Inl e \<Rightarrow> mkdirs name [] (components name) w)"

text \<open>
  \<^verbatim>\<open>os.Create\<close>: the file is made, or emptied when it is there, and its handle is
  open. The handle is the name the file was opened under.
\<close>

definition os_Create :: "string \<Rightarrow> world \<Rightarrow> (error + string) \<times> world" where
  "os_Create name w =
     (let p = components name in
      case walk w [] (butlast p) of
        Some e \<Rightarrow> (Inl (PathError ''open'' name e), w)
      | None \<Rightarrow>
          (case lookup w p of
             Some (Directory t) \<Rightarrow> (Inl (PathError ''open'' name EISDIR), w)
           | _ \<Rightarrow> (Inr name,
                   w\<lparr>fs := (fs w)(p \<mapsto> Regular [] (clock w)),
                     open_files := name # open_files w\<rparr>)))"

definition file_Close :: "string \<Rightarrow> world \<Rightarrow> world" where
  "file_Close fo w = w\<lparr>open_files := remove1 fo (open_files w)\<rparr>"

definition os_Chtimes :: "string \<Rightarrow> time \<Rightarrow> time \<Rightarrow> world \<Rightarrow> error option \<times> world" where
  "os_Chtimes name atime mtime w =
     (let p = components name in
      case os_Stat name w of
        Inl e \<Rightarrow> (Some (PathError ''chtimes'' name e), w)
      | Inr (Regular d t) \<Rightarrow> (None, w\<lparr>fs := (fs w)(p \<mapsto> Regular d mtime)\<rparr>)
      | Inr (Directory t) \<Rightarrow> (None, w\<lparr>fs := (fs w)(p \<mapsto> Directory mtime)\<rparr>))"

text \<open>
  \<^verbatim>\<open>os.RemoveAll\<close>: the path and all below it go; a path that is not there is no
  error and nothing changes.
\<close>

definition os_RemoveAll :: "string \<Rightarrow> world \<Rightarrow> error option \<times> world" where
  "os_RemoveAll name w =
     (let p = components name in
      case os_Stat name w of
        Inl e \<Rightarrow> (None, w)
      | Inr n \<Rightarrow> (None, w\<lparr>fs := (\<lambda>q. if take (length p) q = p then None else fs w q)\<rparr>))"

subsection \<open>Standard output, the transport, copying\<close>

text \<open>
  \<^verbatim>\<open>fmt.Print\<close> of strings writes them one after the other; \<^verbatim>\<open>fmt.Println\<close>
  puts a space between two operands and a newline at the end.
\<close>

definition fmt_Print :: "string list \<Rightarrow> world \<Rightarrow> world" where
  "fmt_Print xs w = w\<lparr>stdout := stdout w @ concat xs\<rparr>"

fun spaced :: "string list \<Rightarrow> string" where
  "spaced [] = []"
| "spaced [x] = x"
| "spaced (x # xs) = x @ '' '' @ spaced xs"

definition fmt_Println :: "string list \<Rightarrow> world \<Rightarrow> world" where
  "fmt_Println xs w = w\<lparr>stdout := stdout w @ spaced xs @ [CHR 0x0A]\<rparr>"

definition strings_Join :: "string list \<Rightarrow> string \<Rightarrow> string" where
  "strings_Join xs sep = (case xs of [] \<Rightarrow> [] | x # ys \<Rightarrow> x @ concat (map (\<lambda>y. sep @ y) ys))"

text \<open>
  A call of the transport is recorded; a body that it hands out is open until it is
  closed.
\<close>

definition rem_Download :: "Commands \<Rightarrow> string \<Rightarrow> string \<Rightarrow> world \<Rightarrow> (error + blob) \<times> world" where
  "rem_Download g ident exportUrl w =
     (case Download g ident exportUrl of
        Inl e \<Rightarrow> (Inl e, w\<lparr>downloads := downloads w @ [(ident, exportUrl)]\<rparr>)
      | Inr b \<Rightarrow> (Inr b, w\<lparr>downloads := downloads w @ [(ident, exportUrl)],
                            open_bodies := (ident, exportUrl) # open_bodies w\<rparr>))"

definition blob_Close :: "string \<times> string \<Rightarrow> world \<Rightarrow> world" where
  "blob_Close b w = w\<lparr>open_bodies := remove1 b (open_bodies w)\<rparr>"

text \<open>
  \<^verbatim>\<open>io.Copy\<close>: the bytes read before the end or the error are written to the file.
\<close>

definition io_Copy :: "string \<Rightarrow> blob \<Rightarrow> world \<Rightarrow> error option \<times> world" where
  "io_Copy fo b w =
     (case b of Blob d e \<Rightarrow>
        (case fs w (components fo) of
           Some (Regular old t) \<Rightarrow>
             (e, w\<lparr>fs := (fs w)(components fo \<mapsto> Regular (old @ d) (clock w))\<rparr>)
         | _ \<Rightarrow> (e, w)))"

section \<open>The export table and the materializer\<close>

definition maxNumOfConcPullTasks :: nat where
  "maxNumOfConcPullTasks = 4"

definition docExportsMap :: "string \<rightharpoonup> string list" where
  "docExportsMap =
     [''text/plain'' \<mapsto> [''text/plain'', ''txt''],
      ''application/vnd.google-apps.drawing'' \<mapsto> [''image/svg+xml'', ''svg+xml''],
      ''application/vnd.google-apps.spreadsheet'' \<mapsto>
        [''application/vnd.openxmlformats-officedocument.spreadsheetml.sheet'', ''xlsx''],
      ''application/vnd.google-apps.document'' \<mapsto>
        [''application/vnd.openxmlformats-officedocument.wordprocessingml.document'', ''docx''],
      ''application/vnd.google-apps.presentation'' \<mapsto>
        [''application/vnd.openxmlformats-officedocument.presentationml.presentation'', ''pptx'']]"

text \<open>Reading a Go map: a nil map and a missing key both give the empty string.\<close>

definition map_index :: "(string \<rightharpoonup> string) option \<Rightarrow> string \<Rightarrow> string" where
  "map_index m k = (case m of None \<Rightarrow> [] | Some f \<Rightarrow> (case f k of None \<Rightarrow> [] | Some v \<Rightarrow> v))"

text \<open>
  The first half of \<^verbatim>\<open>download\<close> (lines 145 to 167): the export URL, the base name
  and what is printed on the way.
\<close>

definition export_target :: "Change \<Rightarrow> File \<Rightarrow> world \<Rightarrow> string \<times> string \<times> world" where
  "export_target change src w =
     (let exportUrl = ''''; baseName = Path change in
      if length (BlobAt src) < 1 then
        (let mimeKeyExtList =
               (case docExportsMap (MimeType src) of
                  Some l \<Rightarrow> l
                | None \<Rightarrow> [''text/plain'', ''txt'']);
             exportUrl = map_index (ExportLinks src) (mimeKeyExtList ! 0);
             w1 = fmt_Print [''Exported '', baseName] w;
             baseName = strings_Join [baseName, mimeKeyExtList ! 1] ''.'';
             w2 = fmt_Println ['' to: '', baseName] w1
         in (exportUrl, baseName, w2))
      else (exportUrl, baseName, w))"

text \<open>
  \<^verbatim>\<open>download\<close>. The two deferred functions run when it returns, the one deferred
  last first: the body is closed when there is one, then the file.
\<close>

definition download :: "Commands \<Rightarrow> Change \<Rightarrow> world \<Rightarrow> error option outcome \<times> world" where
  "download g change w =
     (case Src change of
        None \<Rightarrow> (Panic, w)
      | Some src \<Rightarrow>
          (case export_target change src w of (exportUrl, baseName, w1) \<Rightarrow>
             (let destAbsPath = AbsPathOf g baseName in
              case os_Create destAbsPath w1 of
                (Inl e, w2) \<Rightarrow> (Return (Some e), w2)
              | (Inr fo, w2) \<Rightarrow>
                  (case rem_Download g (FileId src) exportUrl w2 of
                     (Inl e, w3) \<Rightarrow> (Return (Some e), file_Close fo w3)
                   | (Inr b, w3) \<Rightarrow>
                       (case io_Copy fo b w3 of (err, w4) \<Rightarrow>
                          (Return err,
                           file_Close fo (blob_Close (FileId src, exportUrl) w4)))))))"

section \<open>The handlers\<close>

text \<open>
  The bodies of the three handlers. Their deferred calls \<^verbatim>\<open>wg.Done()\<close> and
  \<^verbatim>\<open>g.taskDone()\<close> belong to the applier and are modelled there.
\<close>

definition localMod :: "Commands \<Rightarrow> Change \<Rightarrow> world \<Rightarrow> error option outcome \<times> world" where
  "localMod g change w =
     (let destAbsPath = AbsPathOf g (Path change) in
      case Src change of
        None \<Rightarrow> (Panic, w)
      | Some src \<Rightarrow>
          if BlobAt src \<noteq> '''' \<or> ExportLinks src \<noteq> None then
            (case download g change w of
               (Panic, w1) \<Rightarrow> (Panic, w1)
             | (Return (Some e), w1) \<Rightarrow> (Return (Some e), w1)
             | (Return None, w1) \<Rightarrow>
                 (case os_Chtimes destAbsPath (ModTime src) (ModTime src) w1 of
                    (err, w2) \<Rightarrow> (Return err, w2)))
          else
            (case os_Chtimes destAbsPath (ModTime src) (ModTime src) w of
               (err, w2) \<Rightarrow> (Return err, w2)))"

definition localAdd :: "Commands \<Rightarrow> Change \<Rightarrow> world \<Rightarrow> error option outcome \<times> world" where
  "localAdd g change w =
     (let destAbsPath = AbsPathOf g (Path change);
          w0 = snd (os_MkdirAll (filepath_Dir destAbsPath) w) in
      case Src change of
        None \<Rightarrow> (Panic, w0)
      | Some src \<Rightarrow>
          if IsDir src then
            (case os_Mkdir destAbsPath w0 of (err, w1) \<Rightarrow> (Return err, w1))
          else if BlobAt src \<noteq> '''' \<or> ExportLinks src \<noteq> None then
            (case download g change w0 of
               (Panic, w1) \<Rightarrow> (Panic, w1)
             | (Return (Some e), w1) \<Rightarrow> (Return (Some e), w1)
             | (Return None, w1) \<Rightarrow>
                 (case os_Chtimes destAbsPath (ModTime src) (ModTime src) w1 of
                    (err, w2) \<Rightarrow> (Return err, w2)))
          else
            (case os_Chtimes destAbsPath (ModTime src) (ModTime src) w0 of
               (err, w2) \<Rightarrow> (Return err, w2)))"

definition localDelete :: "Commands \<Rightarrow> Change \<Rightarrow> world \<Rightarrow> error option outcome \<times> world" where
  "localDelete g change w =
     (case Dest change of
        None \<Rightarrow> (Panic, w)
      | Some dest \<Rightarrow>
          (case os_RemoveAll (BlobAt dest) w of (err, w1) \<Rightarrow> (Return err, w1)))"

section \<open>The batched applier\<close>

text \<open>
  \<^verbatim>\<open>playPullChangeList\<close> starts one goroutine for each change of a batch and waits
  for them at a \<^verbatim>\<open>sync.WaitGroup\<close>. The model is a transition system in which a
  scheduler chooses which thread moves next:
  \<^item> \<open>Caller\<close>: the calling thread. Inside the \<^verbatim>\<open>range\<close> loop it starts the handler
    of the next change of the batch. At \<^verbatim>\<open>wg.Wait()\<close> it can move only when the
    counter is zero; it then cuts the next batch off the list, and either leaves the
    loop, or adds the size of the batch to the counter.
  \<^item> \<open>Body i\<close>: the goroutine of the change at position \<open>i\<close> of the list runs the body
    of its handler and returns; the deferred \<^verbatim>\<open>wg.Done()\<close>, deferred last, runs
    first.
  \<^item> \<open>Notify i\<close>: the same goroutine runs its other deferred call,
    \<^verbatim>\<open>g.taskDone()\<close>, and ends.

  Each change carries its position in the list, which stands for the identity of the
  pointer; the variable \<^verbatim>\<open>next\<close> of the source is the field \<open>next_batch\<close>. The
  body of a handler is one step: the model does not interleave the system
  calls of two handlers, and every call of the transport answers. A handler that
  dereferences nil runs its deferred calls and takes the program down. The counters
  behind \<^verbatim>\<open>taskStart\<close>, \<^verbatim>\<open>taskDone\<close> and \<^verbatim>\<open>taskFinish\<close> are not part of the
  source; the calls are events of the trace.
\<close>

datatype event =
  TaskStart nat
  | Dispatched nat
  | Completed nat "error option"
  | Panicked nat
  | TaskDone nat
  | TaskFinish

datatype status = Looping | Returned "error option" | Crashed

datatype choice = Caller | Body nat | Notify nat

record pstate =
  cl :: "(nat \<times> Change) list"
  next_batch :: "(nat \<times> Change) list"
  wg :: int
  running :: "(nat \<times> Change) list"
  exiting :: "nat list"
  err :: "error option"
  status :: status
  env :: world
  trace :: "event list"

text \<open>The \<^verbatim>\<open>switch\<close> on \<^verbatim>\<open>c.Op()\<close>.\<close>

definition handler :: "Commands \<Rightarrow> Change \<Rightarrow> world \<Rightarrow> error option outcome \<times> world" where
  "handler g c =
     (case Op c of
        OpMod \<Rightarrow> localMod g c
      | OpAdd \<Rightarrow> localAdd g c
      | OpDelete \<Rightarrow> localDelete g c)"

text \<open>Lines 77 to 81: the next batch and what stays of the list.\<close>

definition split_next :: "'a list \<Rightarrow> 'a list \<times> 'a list" where
  "split_next xs =
     (if length xs > maxNumOfConcPullTasks
      then (take maxNumOfConcPullTasks xs, drop maxNumOfConcPullTasks xs)
      else (xs, []))"

text \<open>The batches that the loop goes through, in order.\<close>

function batches :: "'a list \<Rightarrow> 'a list list" where
  "batches xs =
     (case split_next xs of (nxt, rest) \<Rightarrow>
        if length nxt = 0 then [] else nxt # batches rest)"
  by pat_completeness auto
termination
  by (relation "measure length")
     (auto simp: split_next_def maxNumOfConcPullTasks_def split: if_splits)

declare batches.simps [simp del]

fun remove_key :: "nat \<Rightarrow> (nat \<times> 'a) list \<Rightarrow> (nat \<times> 'a) list" where
  "remove_key i [] = []"
| "remove_key i ((j, c) # xs) = (if i = j then xs else (j, c) # remove_key i xs)"

definition init :: "Change list \<Rightarrow> world \<Rightarrow> pstate" where
  "init changes w =
     \<lparr>cl = enumerate 0 changes, next_batch = [], wg = 0, running = [], exiting = [],
      err = None, status = Looping, env = w, trace = [TaskStart (length changes)]\<rparr>"

fun step :: "Commands \<Rightarrow> choice \<Rightarrow> pstate \<Rightarrow> pstate option" where
  "step g Caller s =
     (if status s \<noteq> Looping then None
      else
        (case next_batch s of
           (i, c) # rest \<Rightarrow>
             Some (s\<lparr>next_batch := rest, running := running s @ [(i, c)],
                     trace := trace s @ [Dispatched i]\<rparr>)
         | [] \<Rightarrow>
             if wg s \<noteq> 0 then None
             else
               (case split_next (cl s) of (nxt, rest) \<Rightarrow>
                  if length nxt = 0
                  then Some (s\<lparr>cl := rest, status := Returned (err s),
                               trace := trace s @ [TaskFinish]\<rparr>)
                  else Some (s\<lparr>cl := rest, next_batch := nxt,
                               wg := wg s + int (length nxt)\<rparr>))))"
| "step g (Body i) s =
     (if status s = Crashed then None
      else
        (case map_of (running s) i of
           None \<Rightarrow> None
         | Some c \<Rightarrow>
             (case handler g c (env s) of
                (Return r, w) \<Rightarrow>
                  Some (s\<lparr>running := remove_key i (running s), exiting := exiting s @ [i],
                          wg := wg s - 1, env := w, trace := trace s @ [Completed i r]\<rparr>)
              | (Panic, w) \<Rightarrow>
                  Some (s\<lparr>running := remove_key i (running s), wg := wg s - 1, env := w,
                          status := Crashed,
                          trace := trace s @ [TaskDone i, Panicked i]\<rparr>))))"
| "step g (Notify i) s =
     (if status s = Crashed \<or> i \<notin> set (exiting s) then None
      else Some (s\<lparr>exiting := remove1 i (exiting s), trace := trace s @ [TaskDone i]\<rparr>))"

text \<open>A run under a schedule; \<open>None\<close> when the schedule asks for a move that cannot be made.\<close>

fun runs :: "Commands \<Rightarrow> choice list \<Rightarrow> pstate \<Rightarrow> pstate option" where
  "runs g [] s = Some s"
| "runs g (ch # chs) s =
     (case step g ch s of
        None \<Rightarrow> None
      | Some s' \<Rightarrow> runs g chs s')"



section \<open>Notions used in the statements and proofs\<close>

text \<open>The modification time of the entry at a path, when there is one.\<close>

definition mtime_at :: "world \<Rightarrow> path \<Rightarrow> time option" where
  "mtime_at w p =
     (case fs w p of
        None \<Rightarrow> None
      | Some (Regular d t) \<Rightarrow> Some t
      | Some (Directory t) \<Rightarrow> Some t)"

text \<open>
  In a trace: the positions whose handler has returned, and the positions in the order in
  which their handlers were started. A trace keeps the barrier when at every start of a
  handler the handlers of all earlier batches have returned; the batch of position \<open>i\<close>
  is \<open>i div 4\<close>, with 4 the value of \<^verbatim>\<open>maxNumOfConcPullTasks\<close>.
\<close>

definition completed :: "event list \<Rightarrow> nat set" where
  "completed tr = {i. \<exists>r. Completed i r \<in> set tr}"

definition barrier :: "event list \<Rightarrow> bool" where
  "barrier tr = (\<forall>pre j post i. tr = pre @ Dispatched j # post \<and> i div 4 < j div 4 \<longrightarrow> i \<in> completed pre)"

text \<open>
  How many changes have been cut off the list, and how many handlers have been started.
\<close>

definition ndone :: "Change list \<Rightarrow> pstate \<Rightarrow> nat" where
  "ndone changes s = length changes - length (cl s)"

definition ndisp :: "Change list \<Rightarrow> pstate \<Rightarrow> nat" where
  "ndisp changes s = length changes - length (cl s) - length (next_batch s)"

definition dispatched :: "event list \<Rightarrow> nat list" where
  "dispatched tr = concat (map (\<lambda>e. case e of Dispatched j \<Rightarrow> [j] | _ \<Rightarrow> []) tr)"

text \<open>
  The invariant of the states that have not crashed: what is left to start is a suffix of
  the list; the handlers that run belong to the batch at hand; every handler started
  before runs or has returned; the counter of the wait group is the number of handlers
  of the batch that have not returned; the list is cut at multiples of 4.
\<close>

definition applier_inv :: "Change list \<Rightarrow> pstate \<Rightarrow> bool" where
  "applier_inv changes s =
     (length (next_batch s) + length (cl s) \<le> length changes
    \<and> next_batch s @ cl s = drop (ndisp changes s) (enumerate 0 changes)
    \<and> (\<forall>x \<in> set (running s). 4 * ((ndone changes s - 1) div 4) \<le> fst x \<and> fst x < ndisp changes s)
    \<and> (\<forall>i < ndisp changes s. i \<in> fst ` set (running s) \<or> i \<in> completed (trace s))
    \<and> wg s = int (length (next_batch s)) + int (length (running s))
    \<and> (ndone changes s mod 4 = 0 \<or> cl s = [])
    \<and> 4 * ((ndone changes s - 1) div 4) \<le> ndisp changes s
    \<and> set (running s) \<subseteq> set (enumerate 0 changes)
    \<and> (\<forall>e. status s = Returned e \<longrightarrow> cl s = [] \<and> next_batch s = [] \<and> running s = []))"

definition applier_sound :: "Change list \<Rightarrow> pstate \<Rightarrow> bool" where
  "applier_sound changes s =
     (barrier (trace s) \<and> err s = None \<and> (\<forall>e. status s = Returned e \<longrightarrow> e = None)
      \<and> dispatched (trace s) = [0..<ndisp changes s]
      \<and> (status s \<noteq> Crashed \<longrightarrow> applier_inv changes s))"

section \<open>A sample world and sample changes\<close>

definition g0 :: Commands where
  "g0 = \<lparr>AbsPathOf = (\<lambda>p. ''/r/'' @ p),
          Download = (\<lambda>i u. if u = ''u1'' then Inr (Blob [1, 2, 3] None)
                             else if u = [] \<and> i = ''id2'' then Inr (Blob [4, 5] None)
                             else Inl (ErrorString ''404''))\<rparr>"

definition w0 :: world where
  "w0 = \<lparr>fs = [[''r''] \<mapsto> Directory 1, [''r'', ''f''] \<mapsto> Regular [7] 2], clock = 9,
          stdout = [], open_files = [], open_bodies = [], downloads = []\<rparr>"

definition f_doc :: File where
  "f_doc = \<lparr>FileId = ''id1'', IsDir = False, ModTime = 5, BlobAt = '''',
      MimeType = ''application/vnd.google-apps.document'',
      ExportLinks = Some [''application/vnd.openxmlformats-officedocument.wordprocessingml.document'' \<mapsto> ''u1'']\<rparr>"

definition c_doc :: Change where
  "c_doc = \<lparr>Path = ''doc'', Src = Some f_doc, Dest = None, Op = OpAdd\<rparr>"

definition f_blob :: File where
  "f_blob = \<lparr>FileId = ''id2'', IsDir = False, ModTime = 5, BlobAt = ''b1'', MimeType = ''image/png'', ExportLinks = None\<rparr>"

definition c_blob :: Change where
  "c_blob = \<lparr>Path = ''b'', Src = Some f_blob, Dest = None, Op = OpAdd\<rparr>"

definition f_meta :: File where
  "f_meta = \<lparr>FileId = ''id3'', IsDir = False, ModTime = 5, BlobAt = '''', MimeType = ''image/png'', ExportLinks = None\<rparr>"

definition f_local :: File where
  "f_local = \<lparr>FileId = '''', IsDir = False, ModTime = 2, BlobAt = ''/r/f'', MimeType = '''', ExportLinks = None\<rparr>"

definition c_meta :: Change where
  "c_meta = \<lparr>Path = ''f'', Src = Some f_meta, Dest = Some f_local, Op = OpMod\<rparr>"

definition f_dir :: File where
  "f_dir = \<lparr>FileId = ''id4'', IsDir = True, ModTime = 5, BlobAt = '''', MimeType = '''', ExportLinks = None\<rparr>"

definition c_dir :: Change where
  "c_dir = \<lparr>Path = ''d'', Src = Some f_dir, Dest = None, Op = OpAdd\<rparr>"

definition f_gone :: File where
  "f_gone = \<lparr>FileId = '''', IsDir = False, ModTime = 2, BlobAt = ''/r/gone'', MimeType = '''', ExportLinks = None\<rparr>"

definition c_del :: Change where
  "c_del = \<lparr>Path = ''gone'', Src = None, Dest = Some f_gone, Op = OpDelete\<rparr>"

definition changes5 :: "Change list" where
  "changes5 = [c_doc, c_blob, c_meta, c_dir, c_del]"

definition sched5 :: "choice list" where
  "sched5 = [Caller, Caller, Body 0, Caller, Caller, Body 2, Caller, Notify 0, Body 3, Body 1,
             Caller, Caller, Notify 2, Body 4, Caller, Notify 1, Notify 3, Notify 4]"

definition c_under :: Change where
  "c_under = \<lparr>Path = ''f/x'', Src = Some f_doc, Dest = None, Op = OpAdd\<rparr>"

definition f_unknown :: File where
  "f_unknown = \<lparr>FileId = ''id5'', IsDir = False, ModTime = 5, BlobAt = '''',
      MimeType = ''application/x-unknown'', ExportLinks = Some [''text/plain'' \<mapsto> ''u1'']\<rparr>"

definition c_unknown :: Change where
  "c_unknown = \<lparr>Path = ''note'', Src = Some f_unknown, Dest = None, Op = OpAdd\<rparr>"

section \<open>The materializer and the handlers: properties\<close>

lemma export_target_blob:
  "BlobAt src \<noteq> [] \<Longrightarrow> export_target c src w = ('''', Path c, w)"
  by (cases "BlobAt src") (simp_all add: export_target_def)

lemma export_target_export:
  assumes "BlobAt src = []"
  shows "export_target c src w =
    (let l = (case docExportsMap (MimeType src) of Some l \<Rightarrow> l | None \<Rightarrow> [''text/plain'', ''txt''])
     in (map_index (ExportLinks src) (l ! 0), Path c @ ''.'' @ l ! 1,
         w\<lparr>stdout := stdout w @ ''Exported '' @ Path c @ '' to:  '' @ Path c @ ''.'' @ l ! 1 @ [CHR 0x0A]\<rparr>))"
  using assms
  by (simp add: export_target_def Let_def fmt_Print_def fmt_Println_def strings_Join_def)

lemma docExportsMap_document:
  "docExportsMap ''application/vnd.google-apps.document'' =
     Some [''application/vnd.openxmlformats-officedocument.wordprocessingml.document'', ''docx'']"
  by (simp add: docExportsMap_def)

lemma download_post:
  assumes "Src c = Some src" and "export_target c src w = (url, base, w1)"
  shows "stdout (snd (download g c w)) = stdout w1"
    and "open_files (snd (download g c w)) = open_files w1"
    and "open_bodies (snd (download g c w)) = open_bodies w1"
    and "clock (snd (download g c w)) = clock w1"
    and "downloads (snd (download g c w)) = downloads w1 \<or>
         downloads (snd (download g c w)) = downloads w1 @ [(FileId src, url)]"
    and "\<forall>p. p \<noteq> components (AbsPathOf g base) \<longrightarrow> fs (snd (download g c w)) p = fs w1 p"
    and "fst (download g c w) = Return None \<longrightarrow>
          (\<exists>d. Download g (FileId src) url = Inr (Blob d None) \<and>
               fs (snd (download g c w)) (components (AbsPathOf g base)) = Some (Regular d (clock w1)) \<and>
               downloads (snd (download g c w)) = downloads w1 @ [(FileId src, url)])"
  using assms
  by (auto simp: download_def os_Create_def rem_Download_def io_Copy_def file_Close_def
      blob_Close_def Let_def split: option.splits sum.splits node.splits blob.splits prod.splits)

lemma download_Panic: "Src c = None \<Longrightarrow> download g c w = (Panic, w)"
  by (simp add: download_def)

lemma export_target_frame:
  assumes "export_target c src w = (url, base, w1)"
  shows "fs w1 = fs w" "clock w1 = clock w" "open_files w1 = open_files w" "open_bodies w1 = open_bodies w"
   "downloads w1 = downloads w"
  using assms by (auto simp: export_target_def Let_def fmt_Print_def fmt_Println_def split: if_splits)

lemma download_export:
  assumes s: "Src c = Some src" and b: "BlobAt src = []"
    and l: "(case docExportsMap (MimeType src) of Some l \<Rightarrow> l | None \<Rightarrow> [''text/plain'', ''txt'']) = [k, ext]"
  shows "stdout (snd (download g c w)) =
           stdout w @ ''Exported '' @ Path c @ '' to:  '' @ Path c @ ''.'' @ ext @ [CHR 0x0A]
       \<and> (\<forall>p. p \<noteq> components (AbsPathOf g (Path c @ ''.'' @ ext)) \<longrightarrow>
             fs (snd (download g c w)) p = fs w p)
       \<and> (downloads (snd (download g c w)) = downloads w
          \<or> downloads (snd (download g c w)) = downloads w @ [(FileId src, map_index (ExportLinks src) k)])
       \<and> (fst (download g c w) = Return None \<longrightarrow>
            (\<exists>d. Download g (FileId src) (map_index (ExportLinks src) k) = Inr (Blob d None)
               \<and> fs (snd (download g c w)) (components (AbsPathOf g (Path c @ ''.'' @ ext)))
                   = Some (Regular d (clock w))
               \<and> downloads (snd (download g c w)) =
                   downloads w @ [(FileId src, map_index (ExportLinks src) k)]))"
proof -
  let ?w1 = "w\<lparr>stdout := stdout w @ ''Exported '' @ Path c @ '' to:  '' @ Path c @ ''.'' @ ext @ [CHR 0x0A]\<rparr>"
  have e: "export_target c src w = (map_index (ExportLinks src) k, Path c @ ''.'' @ ext, ?w1)"
    using export_target_export[OF b, of c w] l by (simp add: Let_def)
  from download_post(1,5,6,7)[OF s e, of g] show ?thesis by simp
qed

text \<open>
  Claim C2. A change whose source has no blob, has export links and is a Google document
  is written to the path of the change with \<^verbatim>\<open>.docx\<close> appended, from the URL that the
  export links hold under the key of the Word format (the empty string when the key is
  missing, as reading a Go map gives), and the notice on standard output names the path
  of the change and the suffixed path. No other path of the file system changes, the
  transport is called at most once and with this URL, and when the materializer returns
  nil the file holds the bytes that the transport gave for it.
\<close>

theorem download_document_export:
  assumes "Src c = Some src" and "BlobAt src = []"
    and "ExportLinks src = Some m" and "m \<noteq> Map.empty"
    and "MimeType src = ''application/vnd.google-apps.document''"
  shows "stdout (snd (download g c w)) =
           stdout w @ ''Exported '' @ Path c @ '' to:  '' @ Path c @ ''.docx'' @ [CHR 0x0A]
       \<and> (\<forall>p. p \<noteq> components (AbsPathOf g (Path c @ ''.docx'')) \<longrightarrow>
             fs (snd (download g c w)) p = fs w p)
       \<and> (downloads (snd (download g c w)) = downloads w
          \<or> downloads (snd (download g c w)) = downloads w @
               [(FileId src, map_index (Some m)
                   ''application/vnd.openxmlformats-officedocument.wordprocessingml.document'')])
       \<and> (fst (download g c w) = Return None \<longrightarrow>
            (\<exists>d. Download g (FileId src) (map_index (Some m)
                     ''application/vnd.openxmlformats-officedocument.wordprocessingml.document'')
                   = Inr (Blob d None)
               \<and> fs (snd (download g c w)) (components (AbsPathOf g (Path c @ ''.docx'')))
                   = Some (Regular d (clock w))
               \<and> downloads (snd (download g c w)) = downloads w @
                   [(FileId src, map_index (Some m)
                      ''application/vnd.openxmlformats-officedocument.wordprocessingml.document'')]))"
  using download_export[OF assms(1,2), of
      "''application/vnd.openxmlformats-officedocument.wordprocessingml.document''" "''docx''" g w]
    assms(3,5)
  by (simp add: docExportsMap_document)

text \<open>A document exported in the sample world.\<close>

theorem download_document_export_witness:
  "stdout (snd (download g0 c_doc w0)) = ''Exported doc to:  doc.docx'' @ [CHR 0x0A]
   \<and> fs (snd (download g0 c_doc w0)) [''r'', ''doc.docx''] = Some (Regular [1, 2, 3] 9)
   \<and> fs (snd (download g0 c_doc w0)) [''r'', ''doc''] = None
   \<and> downloads (snd (download g0 c_doc w0)) = [(''id1'', ''u1'')]"
proof -
  have h: "Src c_doc = Some f_doc" "BlobAt f_doc = []"
    "ExportLinks f_doc = Some [''application/vnd.openxmlformats-officedocument.wordprocessingml.document'' \<mapsto> ''u1'']"
    "[''application/vnd.openxmlformats-officedocument.wordprocessingml.document'' \<mapsto> ''u1''] \<noteq> Map.empty"
    "MimeType f_doc = ''application/vnd.google-apps.document''"
    by (simp_all add: c_doc_def f_doc_def)
  have ok: "fst (download g0 c_doc w0) = Return None" by code_simp
  have a: "components (AbsPathOf g0 (Path c_doc @ ''.docx'')) = [''r'', ''doc.docx'']"
    by code_simp
  have d: "Download g0 ''id1'' ''u1'' = Inr (Blob [1, 2, 3] None)" by (simp add: g0_def)
  have w: "fs w0 [''r'', ''doc''] = None" "stdout w0 = []" "downloads w0 = []" "clock w0 = 9"
    by (simp_all add: w0_def)
  from download_document_export[OF h, of g0 w0] ok a d w show ?thesis
    by (simp add: c_doc_def f_doc_def map_index_def)
qed

text \<open>
  Claim C5. A change whose source has no blob and a MIME type that is no key of the export
  table takes the fallback pair: the URL is the one under \<^verbatim>\<open>text/plain\<close>, and the
  content goes to the path of the change with \<^verbatim>\<open>.txt\<close> appended.
\<close>

theorem download_fallback_export:
  assumes "Src c = Some src" and "BlobAt src = []"
    and "docExportsMap (MimeType src) = None"
  shows "stdout (snd (download g c w)) =
           stdout w @ ''Exported '' @ Path c @ '' to:  '' @ Path c @ ''.txt'' @ [CHR 0x0A]
       \<and> (\<forall>p. p \<noteq> components (AbsPathOf g (Path c @ ''.txt'')) \<longrightarrow>
             fs (snd (download g c w)) p = fs w p)
       \<and> (downloads (snd (download g c w)) = downloads w
          \<or> downloads (snd (download g c w)) = downloads w @
               [(FileId src, map_index (ExportLinks src) ''text/plain'')])
       \<and> (fst (download g c w) = Return None \<longrightarrow>
            (\<exists>d. Download g (FileId src) (map_index (ExportLinks src) ''text/plain'') = Inr (Blob d None)
               \<and> fs (snd (download g c w)) (components (AbsPathOf g (Path c @ ''.txt'')))
                   = Some (Regular d (clock w))
               \<and> downloads (snd (download g c w)) = downloads w @
                   [(FileId src, map_index (ExportLinks src) ''text/plain'')]))"
  using download_export[OF assms(1,2), of "''text/plain''" "''txt''" g w] assms(3)
  by simp

text \<open>A file of an unknown type exported in the sample world.\<close>

theorem download_fallback_export_witness:
  "docExportsMap (MimeType f_unknown) = None
   \<and> stdout (snd (download g0 c_unknown w0)) = ''Exported note to:  note.txt'' @ [CHR 0x0A]
   \<and> fs (snd (download g0 c_unknown w0)) [''r'', ''note.txt''] = Some (Regular [1, 2, 3] 9)
   \<and> fs (snd (download g0 c_unknown w0)) [''r'', ''note''] = None
   \<and> downloads (snd (download g0 c_unknown w0)) = [(''id5'', ''u1'')]"
proof -
  have h: "Src c_unknown = Some f_unknown" "BlobAt f_unknown = []"
    "docExportsMap (MimeType f_unknown) = None"
    by (simp_all add: c_unknown_def f_unknown_def docExportsMap_def)
  have ok: "fst (download g0 c_unknown w0) = Return None" by code_simp
  have a: "components (AbsPathOf g0 (Path c_unknown @ ''.txt'')) = [''r'', ''note.txt'']"
    by code_simp
  have d: "Download g0 ''id5'' ''u1'' = Inr (Blob [1, 2, 3] None)" by (simp add: g0_def)
  have w: "fs w0 [''r'', ''note''] = None" "stdout w0 = []" "downloads w0 = []" "clock w0 = 9"
    by (simp_all add: w0_def)
  from download_fallback_export[OF h, of g0 w0] ok a d w h(3) show ?thesis
    by (simp add: c_unknown_def f_unknown_def map_index_def)
qed

text \<open>
  Claim C6. A change whose source has a blob is fetched with the identifier of the source
  (the field \<^verbatim>\<open>Src.FileId\<close>) and the empty export URL, and is written to the path of the
  change itself: nothing is appended and nothing is printed.
\<close>

theorem download_raw_blob:
  assumes "Src c = Some src" and "BlobAt src \<noteq> []"
  shows "stdout (snd (download g c w)) = stdout w
       \<and> (\<forall>p. p \<noteq> components (AbsPathOf g (Path c)) \<longrightarrow>
             fs (snd (download g c w)) p = fs w p)
       \<and> (downloads (snd (download g c w)) = downloads w
          \<or> downloads (snd (download g c w)) = downloads w @ [(FileId src, '''')])
       \<and> (fst (download g c w) = Return None \<longrightarrow>
            (\<exists>d. Download g (FileId src) '''' = Inr (Blob d None)
               \<and> fs (snd (download g c w)) (components (AbsPathOf g (Path c)))
                   = Some (Regular d (clock w))
               \<and> downloads (snd (download g c w)) = downloads w @ [(FileId src, '''')]))"
  using download_post(1,5,6,7)[OF assms(1) export_target_blob[OF assms(2), of c w], of g]
  by simp

text \<open>A raw blob fetched in the sample world.\<close>

theorem download_raw_blob_witness:
  "stdout (snd (download g0 c_blob w0)) = []
   \<and> fs (snd (download g0 c_blob w0)) [''r'', ''b''] = Some (Regular [4, 5] 9)
   \<and> downloads (snd (download g0 c_blob w0)) = [(''id2'', '''')]"
proof -
  have h: "Src c_blob = Some f_blob" "BlobAt f_blob \<noteq> []"
    by (simp_all add: c_blob_def f_blob_def)
  have ok: "fst (download g0 c_blob w0) = Return None" by code_simp
  have a: "components (AbsPathOf g0 (Path c_blob)) = [''r'', ''b'']"
    by code_simp
  have d: "Download g0 ''id2'' '''' = Inr (Blob [4, 5] None)" by (simp add: g0_def)
  have w: "stdout w0 = []" "downloads w0 = []" "clock w0 = 9"
    by (simp_all add: w0_def)
  from download_raw_blob[OF h, of g0 w0] ok a d w show ?thesis
    by (simp add: c_blob_def f_blob_def)
qed

text \<open>
  Claim C9. Whatever way the materializer takes (the panic on a nil source, the error of
  \<^verbatim>\<open>os.Create\<close>, the error of the transport, the error of the copy, success), the
  file handles and the response bodies that are open when it returns are those that were
  open when it was called: the handle that \<^verbatim>\<open>os.Create\<close> opened and the body that
  the transport handed out have been closed.
\<close>

theorem download_releases_handles:
  "open_files (snd (download g c w)) = open_files w \<and>
   open_bodies (snd (download g c w)) = open_bodies w"
proof (cases "Src c")
  case None
  then show ?thesis by (simp add: download_Panic)
next
  case (Some src)
  obtain url base w1 where e: "export_target c src w = (url, base, w1)"
    by (cases "export_target c src w") auto
  show ?thesis
    using download_post(2,3)[OF Some e] export_target_frame(3,4)[OF e] by simp
qed

text \<open>In the sample world nothing stays open after an export.\<close>

theorem download_releases_handles_witness:
  "open_files (snd (download g0 c_doc w0)) = [] \<and> open_bodies (snd (download g0 c_doc w0)) = []"
  using download_releases_handles[of g0 c_doc w0] by (simp add: w0_def)

lemma os_Stat_missing: "lookup w (components name) = None \<Longrightarrow> \<exists>e. os_Stat name w = Inl e"
  by (simp add: os_Stat_def Let_def split: option.splits)

lemma os_RemoveAll_twice:
  "os_RemoveAll name (snd (os_RemoveAll name w)) = (None, snd (os_RemoveAll name w))"
proof (cases "os_Stat name w")
  case (Inl e)
  then show ?thesis by (simp add: os_RemoveAll_def Let_def)
next
  case (Inr n)
  let ?p = "components name"
  let ?w1 = "w\<lparr>fs := (\<lambda>q. if take (length ?p) q = ?p then None else fs w q)\<rparr>"
  have 1: "snd (os_RemoveAll name w) = ?w1" using Inr by (simp add: os_RemoveAll_def Let_def)
  have "?w1\<lparr>fs := (\<lambda>q. if take (length ?p) q = ?p then None else fs ?w1 q)\<rparr> = ?w1"
    by (simp add: fun_eq_iff)
  then have "os_RemoveAll name ?w1 = (None, ?w1)"
    by (cases "os_Stat name ?w1") (simp_all add: os_RemoveAll_def Let_def)
  with 1 show ?thesis by simp
qed

text \<open>
  Claim C10. A Delete whose \<^verbatim>\<open>Dest.BlobAt\<close> names a path that is not there returns
  nil and leaves the world as it is; and a Delete run a second time returns nil and
  changes nothing.
\<close>

theorem localDelete_missing_path:
  assumes "Dest c = Some d"
  shows "(lookup w (components (BlobAt d)) = None \<longrightarrow> localDelete g c w = (Return None, w))
       \<and> localDelete g c (snd (localDelete g c w)) = (Return None, snd (localDelete g c w))"
proof -
  have 1: "lookup w (components (BlobAt d)) = None \<longrightarrow> localDelete g c w = (Return None, w)"
    using assms os_Stat_missing[of w "BlobAt d"]
    by (auto simp: localDelete_def os_RemoveAll_def Let_def)
  have 2: "snd (localDelete g c w) = snd (os_RemoveAll (BlobAt d) w)"
    using assms by (simp add: localDelete_def split: prod.splits)
  have 3: "localDelete g c (snd (localDelete g c w)) = (Return None, snd (localDelete g c w))"
    unfolding 2 using assms os_RemoveAll_twice[of "BlobAt d" w]
    by (simp add: localDelete_def)
  from 1 3 show ?thesis by simp
qed

text \<open>Deleting a path that the sample world does not have.\<close>

theorem localDelete_missing_path_witness:
  "lookup w0 (components (BlobAt f_gone)) = None \<and> localDelete g0 c_del w0 = (Return None, w0)"
proof -
  have h: "Dest c_del = Some f_gone" by (simp add: c_del_def)
  have n: "lookup w0 (components (BlobAt f_gone)) = None" by code_simp
  from localDelete_missing_path[OF h, of w0 g0] n show ?thesis by simp
qed

lemma os_Chtimes_ok:
  "os_Chtimes name a m w = (None, w') \<Longrightarrow> mtime_at w' (components name) = Some m"
  by (auto simp: os_Chtimes_def Let_def mtime_at_def split: sum.splits node.splits)



lemma mkdirs_frame:
  "stdout (snd (mkdirs name cur xs w)) = stdout w
   \<and> downloads (snd (mkdirs name cur xs w)) = downloads w
   \<and> open_files (snd (mkdirs name cur xs w)) = open_files w
   \<and> open_bodies (snd (mkdirs name cur xs w)) = open_bodies w
   \<and> clock (snd (mkdirs name cur xs w)) = clock w"
  by (induction xs arbitrary: cur w) (auto split: option.splits node.splits)


lemma os_MkdirAll_frame:
  "stdout (snd (os_MkdirAll name w)) = stdout w"
  "downloads (snd (os_MkdirAll name w)) = downloads w"
  "open_files (snd (os_MkdirAll name w)) = open_files w"
  "open_bodies (snd (os_MkdirAll name w)) = open_bodies w"
  "clock (snd (os_MkdirAll name w)) = clock w"
  using mkdirs_frame[of name "[]" "components name" w]
  by (auto simp: os_MkdirAll_def split: sum.splits node.splits)


lemma os_MkdirAll_exists:
  "os_Stat name w = Inr (Directory t) \<Longrightarrow> os_MkdirAll name w = (None, w)"
  by (simp add: os_MkdirAll_def)

lemma os_Mkdir_ok:
  "os_Mkdir name w = (None, w') \<Longrightarrow> fs w' (components name) = Some (Directory (clock w))"
  by (auto simp: os_Mkdir_def Let_def split: option.splits)

lemma localMod_content:
  assumes "Src c = Some src" and "BlobAt src \<noteq> [] \<or> ExportLinks src \<noteq> None"
  shows "localMod g c w =
    (case fst (download g c w) of
       Panic \<Rightarrow> (Panic, snd (download g c w))
     | Return (Some e) \<Rightarrow> (Return (Some e), snd (download g c w))
     | Return None \<Rightarrow>
         (Return (fst (os_Chtimes (AbsPathOf g (Path c)) (ModTime src) (ModTime src) (snd (download g c w)))),
          snd (os_Chtimes (AbsPathOf g (Path c)) (ModTime src) (ModTime src) (snd (download g c w)))))"
  using assms
  by (auto simp: localMod_def Let_def split: prod.splits outcome.splits option.splits)

lemma localMod_plain:
  assumes "Src c = Some src" and "BlobAt src = []" and "ExportLinks src = None"
  shows "localMod g c w =
    (Return (fst (os_Chtimes (AbsPathOf g (Path c)) (ModTime src) (ModTime src) w)),
     snd (os_Chtimes (AbsPathOf g (Path c)) (ModTime src) (ModTime src) w))"
  using assms by (auto simp: localMod_def Let_def split: prod.splits)

lemma localAdd_dir:
  assumes "Src c = Some src" and "IsDir src"
  shows "localAdd g c w =
    (Return (fst (os_Mkdir (AbsPathOf g (Path c)) (snd (os_MkdirAll (filepath_Dir (AbsPathOf g (Path c))) w)))),
     snd (os_Mkdir (AbsPathOf g (Path c)) (snd (os_MkdirAll (filepath_Dir (AbsPathOf g (Path c))) w))))"
  using assms by (auto simp: localAdd_def Let_def split: prod.splits)

lemma localAdd_content:
  assumes "Src c = Some src" and "\<not> IsDir src" and "BlobAt src \<noteq> [] \<or> ExportLinks src \<noteq> None"
  shows "localAdd g c w =
    (let w0 = snd (os_MkdirAll (filepath_Dir (AbsPathOf g (Path c))) w) in
     case fst (download g c w0) of
       Panic \<Rightarrow> (Panic, snd (download g c w0))
     | Return (Some e) \<Rightarrow> (Return (Some e), snd (download g c w0))
     | Return None \<Rightarrow>
         (Return (fst (os_Chtimes (AbsPathOf g (Path c)) (ModTime src) (ModTime src) (snd (download g c w0)))),
          snd (os_Chtimes (AbsPathOf g (Path c)) (ModTime src) (ModTime src) (snd (download g c w0)))))"
  using assms
  by (auto simp: localAdd_def Let_def split: prod.splits outcome.splits option.splits)

lemma localAdd_plain:
  assumes "Src c = Some src" and "\<not> IsDir src" and "BlobAt src = []" and "ExportLinks src = None"
  shows "localAdd g c w =
    (let w0 = snd (os_MkdirAll (filepath_Dir (AbsPathOf g (Path c))) w) in
     (Return (fst (os_Chtimes (AbsPathOf g (Path c)) (ModTime src) (ModTime src) w0)),
      snd (os_Chtimes (AbsPathOf g (Path c)) (ModTime src) (ModTime src) w0)))"
  using assms by (auto simp: localAdd_def Let_def split: prod.splits)

lemma chtimes_pair_ok:
  "fst (os_Chtimes name a m w) = None \<Longrightarrow>
   mtime_at (snd (os_Chtimes name a m w)) (components name) = Some m"
  using os_Chtimes_ok[of name a m w "snd (os_Chtimes name a m w)"]
  by (cases "os_Chtimes name a m w") simp

lemma download_raw_written:
  assumes s: "Src c = Some src" and b: "BlobAt src \<noteq> []"
    and ok: "fst (download g c w) = Return None"
  shows "components (AbsPathOf g (Path c)) \<noteq> []
       \<and> (\<exists>d. Download g (FileId src) '''' = Inr (Blob d None)
              \<and> fs (snd (download g c w)) (components (AbsPathOf g (Path c)))
                   = Some (Regular d (clock w)))"
  using s ok export_target_blob[OF b, of c w]
  by (auto simp: download_def os_Create_def rem_Download_def io_Copy_def file_Close_def
      blob_Close_def lookup_def Let_def
      split: option.splits sum.splits node.splits blob.splits prod.splits if_splits)

lemma os_Chtimes_keeps_bytes:
  assumes "fs w (components name) = Some (Regular d t)" and "components name \<noteq> []"
    and "fst (os_Chtimes name a m w) = None"
  shows "fs (snd (os_Chtimes name a m w)) (components name) = Some (Regular d m)"
  using assms
  by (auto simp: os_Chtimes_def os_Stat_def lookup_def Let_def
      split: sum.splits node.splits option.splits)

text \<open>
  Claim C4 as stated fails for an Add of a directory: \<^verbatim>\<open>localAdd\<close> returns the result
  of \<^verbatim>\<open>os.Mkdir\<close> at once and never calls \<^verbatim>\<open>os.Chtimes\<close>. In the sample world
  the clock shows 9 and the source was modified at 5; the Add succeeds and the new
  directory carries the time 9.
\<close>

theorem handlers_set_modification_time_counterexample:
  "Op c_dir = OpAdd \<and> Src c_dir = Some f_dir \<and> IsDir f_dir \<and> ModTime f_dir = 5
   \<and> fst (localAdd g0 c_dir w0) = Return None
   \<and> mtime_at (snd (localAdd g0 c_dir w0)) (components (AbsPathOf g0 (Path c_dir))) = Some 9"
proof -
  have "fst (localAdd g0 c_dir w0) = Return None" by code_simp
  moreover have "mtime_at (snd (localAdd g0 c_dir w0)) (components (AbsPathOf g0 (Path c_dir))) = Some 9"
    by code_simp
  ultimately show ?thesis by (simp add: c_dir_def f_dir_def)
qed

text \<open>
  Claim C4, amended. For a change whose source is not an exported document (its
  \<^verbatim>\<open>BlobAt\<close> is not empty, or its \<^verbatim>\<open>ExportLinks\<close> are nil): after a Modify
  that returns nil, and after an Add of a source that is not a directory that returns
  nil, the local entry has the modification time \<^verbatim>\<open>Src.ModTime\<close>, whatever the clock
  shows; this holds for a Modify whose source has no content as well. When the source
  has a blob, that entry is the file that the materializer wrote, with the bytes that
  the transport gave. After an Add of a directory that returns nil the new directory has
  the time of the clock at its creation. Nothing is said about exported documents.
\<close>

theorem handlers_set_modification_time:
  assumes "Src c = Some src"
  shows "(fst (localMod g c w) = Return None \<and> (BlobAt src \<noteq> [] \<or> ExportLinks src = None) \<longrightarrow>
            mtime_at (snd (localMod g c w)) (components (AbsPathOf g (Path c)))
              = Some (ModTime src))
       \<and> (fst (localAdd g c w) = Return None \<and> \<not> IsDir src
            \<and> (BlobAt src \<noteq> [] \<or> ExportLinks src = None) \<longrightarrow>
            mtime_at (snd (localAdd g c w)) (components (AbsPathOf g (Path c)))
              = Some (ModTime src))
       \<and> (fst (localMod g c w) = Return None \<and> BlobAt src \<noteq> [] \<longrightarrow>
            (\<exists>d. Download g (FileId src) '''' = Inr (Blob d None)
               \<and> fs (snd (localMod g c w)) (components (AbsPathOf g (Path c)))
                    = Some (Regular d (ModTime src))))
       \<and> (fst (localAdd g c w) = Return None \<and> \<not> IsDir src \<and> BlobAt src \<noteq> [] \<longrightarrow>
            (\<exists>d. Download g (FileId src) '''' = Inr (Blob d None)
               \<and> fs (snd (localAdd g c w)) (components (AbsPathOf g (Path c)))
                    = Some (Regular d (ModTime src))))
       \<and> (fst (localAdd g c w) = Return None \<and> IsDir src \<longrightarrow>
            mtime_at (snd (localAdd g c w)) (components (AbsPathOf g (Path c)))
              = Some (clock w))"
proof (intro conjI impI)
  assume "fst (localMod g c w) = Return None \<and> (BlobAt src \<noteq> [] \<or> ExportLinks src = None)"
  then have ok: "fst (localMod g c w) = Return None" by simp
  show "mtime_at (snd (localMod g c w)) (components (AbsPathOf g (Path c))) = Some (ModTime src)"
  proof (cases "BlobAt src \<noteq> [] \<or> ExportLinks src \<noteq> None")
    case True
    from ok show ?thesis
      unfolding localMod_content[OF assms True]
      by (auto split: outcome.splits option.splits intro: chtimes_pair_ok)
  next
    case False
    with ok show ?thesis
      using localMod_plain[OF assms, of g w] by (auto intro: chtimes_pair_ok)
  qed
next
  assume "fst (localAdd g c w) = Return None \<and> \<not> IsDir src
            \<and> (BlobAt src \<noteq> [] \<or> ExportLinks src = None)"
  then have nd: "\<not> IsDir src" and ok: "fst (localAdd g c w) = Return None" by simp_all
  show "mtime_at (snd (localAdd g c w)) (components (AbsPathOf g (Path c))) = Some (ModTime src)"
  proof (cases "BlobAt src \<noteq> [] \<or> ExportLinks src \<noteq> None")
    case True
    from ok show ?thesis
      unfolding localAdd_content[OF assms nd True]
      by (auto simp: Let_def split: outcome.splits option.splits intro: chtimes_pair_ok)
  next
    case False
    with ok show ?thesis
      using localAdd_plain[OF assms nd, of g w] by (auto simp: Let_def intro: chtimes_pair_ok)
  qed
next
  assume "fst (localMod g c w) = Return None \<and> BlobAt src \<noteq> []"
  then have ok: "fst (localMod g c w) = Return None" and b: "BlobAt src \<noteq> []" by simp_all
  let ?dest = "AbsPathOf g (Path c)"
  let ?w1 = "snd (download g c w)"
  have cb: "BlobAt src \<noteq> [] \<or> ExportLinks src \<noteq> None" using b by simp
  from ok have d: "fst (download g c w) = Return None"
    and t: "fst (os_Chtimes ?dest (ModTime src) (ModTime src) ?w1) = None"
    and e: "snd (localMod g c w) = snd (os_Chtimes ?dest (ModTime src) (ModTime src) ?w1)"
    unfolding localMod_content[OF assms cb]
    by (auto split: outcome.splits option.splits)
  from download_raw_written[OF assms b d] obtain bs where
    ne: "components ?dest \<noteq> []" and dl: "Download g (FileId src) '''' = Inr (Blob bs None)"
    and f: "fs ?w1 (components ?dest) = Some (Regular bs (clock w))" by blast
  from os_Chtimes_keeps_bytes[OF f ne t] dl e
  show "\<exists>d. Download g (FileId src) '''' = Inr (Blob d None)
          \<and> fs (snd (localMod g c w)) (components ?dest) = Some (Regular d (ModTime src))"
    by simp
next
  assume "fst (localAdd g c w) = Return None \<and> \<not> IsDir src \<and> BlobAt src \<noteq> []"
  then have ok: "fst (localAdd g c w) = Return None" and nd: "\<not> IsDir src"
    and b: "BlobAt src \<noteq> []" by simp_all
  let ?dest = "AbsPathOf g (Path c)"
  let ?w0 = "snd (os_MkdirAll (filepath_Dir ?dest) w)"
  let ?w1 = "snd (download g c ?w0)"
  have cb: "BlobAt src \<noteq> [] \<or> ExportLinks src \<noteq> None" using b by simp
  from ok have d: "fst (download g c ?w0) = Return None"
    and t: "fst (os_Chtimes ?dest (ModTime src) (ModTime src) ?w1) = None"
    and e: "snd (localAdd g c w) = snd (os_Chtimes ?dest (ModTime src) (ModTime src) ?w1)"
    unfolding localAdd_content[OF assms nd cb]
    by (auto simp: Let_def split: outcome.splits option.splits)
  from download_raw_written[OF assms b d] obtain bs where
    ne: "components ?dest \<noteq> []" and dl: "Download g (FileId src) '''' = Inr (Blob bs None)"
    and f: "fs ?w1 (components ?dest) = Some (Regular bs (clock ?w0))" by blast
  from os_Chtimes_keeps_bytes[OF f ne t] dl e
  show "\<exists>d. Download g (FileId src) '''' = Inr (Blob d None)
          \<and> fs (snd (localAdd g c w)) (components ?dest) = Some (Regular d (ModTime src))"
    by simp
next
  assume "fst (localAdd g c w) = Return None \<and> IsDir src"
  then have d: "IsDir src" and ok: "fst (localAdd g c w) = Return None" by simp_all
  let ?w0 = "snd (os_MkdirAll (filepath_Dir (AbsPathOf g (Path c))) w)"
  from ok have "fst (os_Mkdir (AbsPathOf g (Path c)) ?w0) = None"
    unfolding localAdd_dir[OF assms d] by simp
  then have "fs (snd (os_Mkdir (AbsPathOf g (Path c)) ?w0)) (components (AbsPathOf g (Path c)))
               = Some (Directory (clock ?w0))"
    using os_Mkdir_ok[of "AbsPathOf g (Path c)" ?w0 "snd (os_Mkdir (AbsPathOf g (Path c)) ?w0)"]
    by (cases "os_Mkdir (AbsPathOf g (Path c)) ?w0") simp
  then show "mtime_at (snd (localAdd g c w)) (components (AbsPathOf g (Path c))) = Some (clock w)"
    unfolding localAdd_dir[OF assms d] by (simp add: mtime_at_def os_MkdirAll_frame)
qed

text \<open>A Modify without content, an Add of a blob and an Add of a directory in the sample world.\<close>

theorem handlers_set_modification_time_witness:
  "mtime_at (snd (localMod g0 c_meta w0)) [''r'', ''f''] = Some 5
   \<and> fs (snd (localAdd g0 c_blob w0)) [''r'', ''b''] = Some (Regular [4, 5] 5)
   \<and> mtime_at (snd (localAdd g0 c_blob w0)) [''r'', ''b''] = Some 5
   \<and> mtime_at (snd (localAdd g0 c_dir w0)) [''r'', ''d''] = Some 9"
proof -
  have m: "Src c_meta = Some f_meta" "fst (localMod g0 c_meta w0) = Return None"
    "components (AbsPathOf g0 (Path c_meta)) = [''r'', ''f'']" "ModTime f_meta = 5"
    "ExportLinks f_meta = None"
    by (simp add: c_meta_def, code_simp, code_simp, simp add: f_meta_def, simp add: f_meta_def)
  have b: "Src c_blob = Some f_blob" "\<not> IsDir f_blob" "fst (localAdd g0 c_blob w0) = Return None"
    "components (AbsPathOf g0 (Path c_blob)) = [''r'', ''b'']" "ModTime f_blob = 5"
    "BlobAt f_blob \<noteq> []" "FileId f_blob = ''id2''"
    by (simp add: c_blob_def, simp add: f_blob_def, code_simp, code_simp, simp add: f_blob_def,
        simp add: f_blob_def, simp add: f_blob_def)
  have dl: "Download g0 ''id2'' '''' = Inr (Blob [4, 5] None)" by (simp add: g0_def)
  have d: "Src c_dir = Some f_dir" "IsDir f_dir" "fst (localAdd g0 c_dir w0) = Return None"
    "components (AbsPathOf g0 (Path c_dir)) = [''r'', ''d'']" "clock w0 = 9"
    by (simp add: c_dir_def, simp add: f_dir_def, code_simp, code_simp, simp add: w0_def)
  from handlers_set_modification_time[OF m(1), of g0 w0] handlers_set_modification_time[OF b(1), of g0 w0] handlers_set_modification_time[OF d(1), of g0 w0] m b d dl
  show ?thesis by simp
qed





text \<open>
  Claim C7 as stated fails: \<^verbatim>\<open>localAdd\<close> drops the result of \<^verbatim>\<open>os.MkdirAll\<close>
  without looking at it. In the sample world the parent of the destination is a regular
  file, so \<^verbatim>\<open>os.MkdirAll\<close> fails with \<^verbatim>\<open>ENOTDIR\<close>, an error that no directory
  already there has caused; the handler goes on all the same, prints the export notice,
  and what it returns is the later error of \<^verbatim>\<open>os.Create\<close>.
\<close>

theorem localAdd_drops_mkdirall_result_counterexample:
  "Op c_under = OpAdd \<and> Src c_under = Some f_doc
   \<and> fs w0 (components (filepath_Dir (AbsPathOf g0 (Path c_under)))) = Some (Regular [7] 2)
   \<and> fst (os_MkdirAll (filepath_Dir (AbsPathOf g0 (Path c_under))) w0)
        = Some (PathError ''mkdir'' ''/r/f'' ENOTDIR)
   \<and> fst (localAdd g0 c_under w0) = Return (Some (PathError ''open'' ''/r/f/x.docx'' ENOTDIR))
   \<and> stdout w0 = []
   \<and> stdout (snd (localAdd g0 c_under w0)) = ''Exported f/x to:  f/x.docx'' @ [CHR 0x0A]"
proof -
  have "fs w0 (components (filepath_Dir (AbsPathOf g0 (Path c_under)))) = Some (Regular [7] 2)"
    and "fst (os_MkdirAll (filepath_Dir (AbsPathOf g0 (Path c_under))) w0)
        = Some (PathError ''mkdir'' ''/r/f'' ENOTDIR)"
    and "fst (localAdd g0 c_under w0) = Return (Some (PathError ''open'' ''/r/f/x.docx'' ENOTDIR))"
    and "stdout w0 = []"
    and "stdout (snd (localAdd g0 c_under w0)) = ''Exported f/x to:  f/x.docx'' @ [CHR 0x0A]"
    by code_simp+
  then show ?thesis by (simp add: c_under_def)
qed

text \<open>
  Claim C7, amended. For an Add the result of creating the chain of parent directories is
  dropped whatever its cause. When the parent is a directory already, the step gives no
  error and changes nothing. What the handler returns is the result of the steps after
  it, run in the world that \<^verbatim>\<open>os.MkdirAll\<close> left: the result of \<^verbatim>\<open>os.Mkdir\<close> for
  a directory; for a source with content the error of the materializer when it fails, and
  the result of \<^verbatim>\<open>os.Chtimes\<close> when it succeeds; the result of \<^verbatim>\<open>os.Chtimes\<close>
  for a source without content.
\<close>

theorem localAdd_drops_mkdirall_result:
  assumes "Src c = Some src"
  shows "(\<forall>t. os_Stat (filepath_Dir (AbsPathOf g (Path c))) w = Inr (Directory t) \<longrightarrow>
            os_MkdirAll (filepath_Dir (AbsPathOf g (Path c))) w = (None, w))
       \<and> (let dest = AbsPathOf g (Path c);
               w0 = snd (os_MkdirAll (filepath_Dir dest) w);
               w1 = snd (download g c w0)
           in (IsDir src \<longrightarrow>
                 localAdd g c w = (Return (fst (os_Mkdir dest w0)), snd (os_Mkdir dest w0)))
            \<and> (\<not> IsDir src \<and> (BlobAt src \<noteq> [] \<or> ExportLinks src \<noteq> None) \<longrightarrow>
                 (\<forall>e. fst (download g c w0) = Return (Some e) \<longrightarrow>
                        localAdd g c w = (Return (Some e), w1))
               \<and> (fst (download g c w0) = Return None \<longrightarrow>
                        localAdd g c w =
                          (Return (fst (os_Chtimes dest (ModTime src) (ModTime src) w1)),
                           snd (os_Chtimes dest (ModTime src) (ModTime src) w1))))
            \<and> (\<not> IsDir src \<and> BlobAt src = [] \<and> ExportLinks src = None \<longrightarrow>
                 localAdd g c w =
                   (Return (fst (os_Chtimes dest (ModTime src) (ModTime src) w0)),
                    snd (os_Chtimes dest (ModTime src) (ModTime src) w0))))"
proof -
  show ?thesis
    unfolding Let_def
  proof (intro conjI impI allI)
    show "\<And>t. os_Stat (filepath_Dir (AbsPathOf g (Path c))) w = Inr (Directory t) \<Longrightarrow>
            os_MkdirAll (filepath_Dir (AbsPathOf g (Path c))) w = (None, w)"
      by (simp add: os_MkdirAll_exists)
  next
    assume "IsDir src"
    then show "localAdd g c w =
      (Return (fst (os_Mkdir (AbsPathOf g (Path c)) (snd (os_MkdirAll (filepath_Dir (AbsPathOf g (Path c))) w)))),
       snd (os_Mkdir (AbsPathOf g (Path c)) (snd (os_MkdirAll (filepath_Dir (AbsPathOf g (Path c))) w))))"
      by (rule localAdd_dir[OF assms])
  next
    fix e
    assume h: "\<not> IsDir src \<and> (BlobAt src \<noteq> [] \<or> ExportLinks src \<noteq> None)"
      and d: "fst (download g c (snd (os_MkdirAll (filepath_Dir (AbsPathOf g (Path c))) w))) = Return (Some e)"
    from h have nd: "\<not> IsDir src" and cb: "BlobAt src \<noteq> [] \<or> ExportLinks src \<noteq> None" by simp_all
    from d show "localAdd g c w =
        (Return (Some e), snd (download g c (snd (os_MkdirAll (filepath_Dir (AbsPathOf g (Path c))) w))))"
      unfolding localAdd_content[OF assms nd cb] by (simp add: Let_def)
  next
    assume h: "\<not> IsDir src \<and> (BlobAt src \<noteq> [] \<or> ExportLinks src \<noteq> None)"
      and d: "fst (download g c (snd (os_MkdirAll (filepath_Dir (AbsPathOf g (Path c))) w))) = Return None"
    from h have nd: "\<not> IsDir src" and cb: "BlobAt src \<noteq> [] \<or> ExportLinks src \<noteq> None" by simp_all
    from d show "localAdd g c w =
        (Return (fst (os_Chtimes (AbsPathOf g (Path c)) (ModTime src) (ModTime src)
                   (snd (download g c (snd (os_MkdirAll (filepath_Dir (AbsPathOf g (Path c))) w)))))),
         snd (os_Chtimes (AbsPathOf g (Path c)) (ModTime src) (ModTime src)
                   (snd (download g c (snd (os_MkdirAll (filepath_Dir (AbsPathOf g (Path c))) w))))))"
      unfolding localAdd_content[OF assms nd cb] by (simp add: Let_def)
  next
    assume h: "\<not> IsDir src \<and> BlobAt src = [] \<and> ExportLinks src = None"
    then show "localAdd g c w =
        (Return (fst (os_Chtimes (AbsPathOf g (Path c)) (ModTime src) (ModTime src)
                   (snd (os_MkdirAll (filepath_Dir (AbsPathOf g (Path c))) w)))),
         snd (os_Chtimes (AbsPathOf g (Path c)) (ModTime src) (ModTime src)
                   (snd (os_MkdirAll (filepath_Dir (AbsPathOf g (Path c))) w))))"
      using localAdd_plain[OF assms, of g w] by (simp add: Let_def)
  qed
qed

text \<open>
  In the sample world: a parent that exists, an Add whose time stamp fails, and an Add
  whose materializer fails.
\<close>

theorem localAdd_drops_mkdirall_result_witness:
  "os_MkdirAll (filepath_Dir (AbsPathOf g0 (Path c_doc))) w0 = (None, w0)
   \<and> fst (localAdd g0 c_doc w0) = Return (Some (PathError ''chtimes'' ''/r/doc'' ENOENT))
   \<and> fst (localAdd g0 c_under w0) = Return (Some (PathError ''open'' ''/r/f/x.docx'' ENOTDIR))"
proof -
  have h: "Src c_doc = Some f_doc" "Src c_under = Some f_doc"
    "\<not> IsDir f_doc \<and> (BlobAt f_doc \<noteq> [] \<or> ExportLinks f_doc \<noteq> None)"
    by (simp_all add: c_doc_def c_under_def f_doc_def)
  have st: "os_Stat (filepath_Dir (AbsPathOf g0 (Path c_doc))) w0 = Inr (Directory 1)"
    by code_simp
  from localAdd_drops_mkdirall_result[OF h(1), of g0 w0] st
  have mk: "os_MkdirAll (filepath_Dir (AbsPathOf g0 (Path c_doc))) w0 = (None, w0)" by simp
  have d1: "fst (download g0 c_doc w0) = Return None" by code_simp
  have t1: "fst (os_Chtimes (AbsPathOf g0 (Path c_doc)) (ModTime f_doc) (ModTime f_doc)
              (snd (download g0 c_doc w0))) = Some (PathError ''chtimes'' ''/r/doc'' ENOENT)"
    by code_simp
  have d2: "fst (download g0 c_under (snd (os_MkdirAll (filepath_Dir (AbsPathOf g0 (Path c_under))) w0)))
              = Return (Some (PathError ''open'' ''/r/f/x.docx'' ENOTDIR))"
    by code_simp
  from localAdd_drops_mkdirall_result[OF h(1), of g0 w0] h(3) mk d1 t1
  have a: "fst (localAdd g0 c_doc w0) = Return (Some (PathError ''chtimes'' ''/r/doc'' ENOENT))"
    by (simp add: Let_def)
  from localAdd_drops_mkdirall_result[OF h(2), of g0 w0] h(3) d2
  have b: "fst (localAdd g0 c_under w0) = Return (Some (PathError ''open'' ''/r/f/x.docx'' ENOTDIR))"
    by (simp add: Let_def)
  from mk a b show ?thesis by simp
qed


section \<open>The applier: invariants\<close>

lemma div4_a: "(k::nat) div 4 < a div 4 \<Longrightarrow> a < d \<Longrightarrow> k < 4 * ((d - 1) div 4)"
proof -
  assume h: "k div 4 < a div 4" "a < d"
  then have "a div 4 \<le> (d - 1) div 4" by (intro div_le_mono) simp
  with h have "Suc (k div 4) \<le> (d - 1) div 4" by simp
  then have "4 * Suc (k div 4) \<le> 4 * ((d - 1) div 4)" by simp
  moreover have "k < 4 * Suc (k div 4)" by (simp add: dividend_less_times_div mult.commute)
  ultimately show ?thesis by simp
qed

lemma div4_b: "(k::nat) div 4 < a div 4 \<Longrightarrow> k < a"
  by (metis div_le_mono leD leI)

lemma div4_c: "(d::nat) mod 4 = 0 \<Longrightarrow> 0 < k \<Longrightarrow> k \<le> 4 \<Longrightarrow> 4 * ((d + k - 1) div 4) = d"
  by presburger

lemma snoc_eq_decomp:
  assumes "tr @ [e] = pre @ x # post"
  shows "(\<exists>post'. post = post' @ [e] \<and> tr = pre @ x # post') \<or> (post = [] \<and> tr = pre \<and> e = x)"
proof (cases post rule: rev_cases)
  case Nil
  with assms show ?thesis by simp
next
  case (snoc ys y)
  with assms have "tr @ [e] = (pre @ x # ys) @ [y]" by simp
  then have "tr = pre @ x # ys" "e = y" by auto
  with snoc show ?thesis by simp
qed

lemma barrier_snoc_other:
  assumes "barrier tr" "\<forall>j. e \<noteq> Dispatched j"
  shows "barrier (tr @ [e])"
  unfolding barrier_def
proof (intro allI impI)
  fix pre j post i
  assume h: "tr @ [e] = pre @ Dispatched j # post \<and> i div 4 < j div 4"
  from snoc_eq_decomp[of tr e pre "Dispatched j" post] h assms(2)
  obtain post' where "tr = pre @ Dispatched j # post'" by auto
  with assms(1) h show "i \<in> completed pre" unfolding barrier_def by blast
qed

lemma barrier_snoc_dispatch:
  assumes "barrier tr" "\<forall>i. i div 4 < j div 4 \<longrightarrow> i \<in> completed tr"
  shows "barrier (tr @ [Dispatched j])"
  unfolding barrier_def
proof (intro allI impI)
  fix pre j' post i
  assume h: "tr @ [Dispatched j] = pre @ Dispatched j' # post \<and> i div 4 < j' div 4"
  from snoc_eq_decomp[of tr "Dispatched j" pre "Dispatched j'" post] h
  consider post' where "tr = pre @ Dispatched j' # post'" | "tr = pre" "j = j'" by auto
  then show "i \<in> completed pre"
  proof cases
    case 1
    with assms(1) h show ?thesis unfolding barrier_def by blast
  next
    case 2
    with assms(2) h show ?thesis by simp
  qed
qed

lemma completed_snoc: "completed (tr @ [e]) = (case e of Completed i r \<Rightarrow> insert i (completed tr) | _ \<Rightarrow> completed tr)"
  by (auto simp: completed_def split: event.splits)

lemma dispatched_snoc:
  "dispatched (tr @ [e]) = dispatched tr @ (case e of Dispatched j \<Rightarrow> [j] | _ \<Rightarrow> [])"
  by (simp add: dispatched_def)

lemma sound_init: "applier_sound changes (init changes w)"
  by (simp add: applier_sound_def applier_inv_def init_def ndisp_def ndone_def barrier_def completed_def
      dispatched_def Cons_eq_append_conv)

lemma remove_key_length: "map_of xs i = Some c \<Longrightarrow> Suc (length (remove_key i xs)) = length xs"
  by (induction i xs rule: remove_key.induct) (auto split: if_splits)

lemma remove_key_subset: "set (remove_key i xs) \<subseteq> set xs"
  by (induction i xs rule: remove_key.induct) auto

lemma remove_key_other: "j \<noteq> i \<Longrightarrow> j \<in> fst ` set xs \<Longrightarrow> j \<in> fst ` set (remove_key i xs)"
  by (induction i xs rule: remove_key.induct) (auto split: if_splits)

lemma sound_dispatch:
  assumes S: "applier_sound changes s" and st: "status s = Looping" and nb: "next_batch s = (i, c) # rest"
  shows "applier_sound changes (s\<lparr>next_batch := rest, running := running s @ [(i, c)], trace := trace s @ [Dispatched i]\<rparr>)"
proof -
  let ?E = "enumerate 0 changes"
  let ?a = "ndisp changes s"
  let ?d = "ndone changes s"
  from S st have I: "applier_inv changes s" by (simp add: applier_sound_def)
  from I nb have len: "Suc (length rest) + length (cl s) \<le> length changes"
    by (simp add: applier_inv_def)
  then have a_lt: "?a < length changes" and a_d: "?a < ?d"
    using nb by (simp_all add: ndisp_def ndone_def)
  from I nb have dr: "(i, c) # rest @ cl s = drop ?a ?E" by (simp add: applier_inv_def)
  have "drop ?a ?E = ?E ! ?a # drop (Suc ?a) ?E"
    using a_lt by (simp add: Cons_nth_drop_Suc)
  with dr have hd: "(i, c) = ?E ! ?a" and tl: "rest @ cl s = drop (Suc ?a) ?E" by simp_all
  from hd a_lt have i_eq: "i = ?a" by (simp_all add: nth_enumerate_eq)
  have mem: "(i, c) \<in> set ?E" using hd a_lt nth_mem[of ?a ?E] by simp
  let ?s' = "s\<lparr>next_batch := rest, running := running s @ [(i, c)], trace := trace s @ [Dispatched i]\<rparr>"
  have a': "ndisp changes ?s' = Suc ?a" using len nb by (simp add: ndisp_def)
  have d': "ndone changes ?s' = ?d" by (simp add: ndone_def)
  have lo: "4 * ((?d - 1) div 4) \<le> ?a" using I by (simp add: applier_inv_def)
  have run: "\<forall>x \<in> set (running s). 4 * ((?d - 1) div 4) \<le> fst x \<and> fst x < ?a" using I by (simp add: applier_inv_def)
  have cov: "\<forall>i < ?a. i \<in> fst ` set (running s) \<or> i \<in> completed (trace s)" using I by (simp add: applier_inv_def)
  have bar: "barrier (trace s @ [Dispatched i])"
  proof (rule barrier_snoc_dispatch)
    show "barrier (trace s)" using S by (simp add: applier_sound_def)
    show "\<forall>k. k div 4 < i div 4 \<longrightarrow> k \<in> completed (trace s)"
    proof (intro allI impI)
      fix k assume kk: "k div 4 < i div 4"
      have k1: "k < 4 * ((?d - 1) div 4)"
        using kk a_d div4_a[of k ?a ?d] unfolding i_eq by blast
      have k2: "k < ?a" using kk div4_b[of k ?a] unfolding i_eq by blast
      have "k \<notin> fst ` set (running s)"
      proof
        assume "k \<in> fst ` set (running s)"
        then obtain x where "x \<in> set (running s)" "k = fst x" by blast
        with run have "4 * ((?d - 1) div 4) \<le> k" by blast
        with k1 show False by simp
      qed
      with cov k2 show "k \<in> completed (trace s)" by blast
    qed
  qed
  have I': "wg s = int (length (next_batch s)) + int (length (running s))"
    "ndone changes s mod 4 = 0 \<or> cl s = []" "set (running s) \<subseteq> set ?E"
    using I by (simp_all add: applier_inv_def)
  have inv': "applier_inv changes ?s'"
    unfolding applier_inv_def a' d'
  proof (intro conjI)
    show "length (next_batch ?s') + length (cl ?s') \<le> length changes" using len by simp
    show "next_batch ?s' @ cl ?s' = drop (Suc ?a) ?E" using tl by simp
    show "\<forall>x\<in>set (running ?s'). 4 * ((?d - 1) div 4) \<le> fst x \<and> fst x < Suc ?a"
      using run lo i_eq by auto
    show "\<forall>k<Suc ?a. k \<in> fst ` set (running ?s') \<or> k \<in> completed (trace ?s')"
      using cov i_eq by (auto simp: completed_snoc less_Suc_eq)
    show "wg ?s' = int (length (next_batch ?s')) + int (length (running ?s'))"
      using I'(1) nb by simp
    show "?d mod 4 = 0 \<or> cl ?s' = []" using I'(2) by simp
    show "4 * ((?d - 1) div 4) \<le> Suc ?a" using lo by simp
    show "set (running ?s') \<subseteq> set ?E" using I'(3) mem by simp
    show "\<forall>e. status ?s' = Returned e \<longrightarrow> cl ?s' = [] \<and> next_batch ?s' = [] \<and> running ?s' = []"
      using st by simp
  qed
  have "dispatched (trace ?s') = [0..<Suc ?a]"
    using S i_eq by (simp add: applier_sound_def dispatched_snoc)
  with inv' bar S a' show ?thesis by (simp add: applier_sound_def)
qed

lemma split_next_facts:
  assumes "split_next xs = (nxt, rest)"
  shows "nxt @ rest = xs" "length nxt \<le> 4" "rest \<noteq> [] \<longrightarrow> length nxt = 4" "nxt = [] \<longrightarrow> xs = []"
  using assms by (auto simp: split_next_def maxNumOfConcPullTasks_def split: if_splits)

lemma sound_batch:
  assumes S: "applier_sound changes s" and st: "status s = Looping" and nb: "next_batch s = []"
    and w0: "wg s = 0" and sp: "split_next (cl s) = (nxt, rest)" and ne: "nxt \<noteq> []"
  shows "applier_sound changes (s\<lparr>cl := rest, next_batch := nxt, wg := wg s + int (length nxt)\<rparr>)"
proof -
  let ?s' = "s\<lparr>cl := rest, next_batch := nxt, wg := wg s + int (length nxt)\<rparr>"
  let ?d = "ndone changes s"
  from S st have I: "applier_inv changes s" by (simp add: applier_sound_def)
  note sf = split_next_facts[OF sp]
  from I nb w0 have r0: "running s = []" by (simp add: applier_inv_def)
  have cl_eq: "cl s = nxt @ rest" using sf(1) by simp
  from I nb have len: "length (cl s) \<le> length changes" by (simp add: applier_inv_def)
  have a': "ndisp changes ?s' = ndisp changes s"
    using nb cl_eq by (simp add: ndisp_def)
  have ad: "ndisp changes s = ?d" using nb by (simp add: ndisp_def ndone_def)
  have d': "ndone changes ?s' = ?d + length nxt"
    using len cl_eq by (simp add: ndone_def)
  from I cl_eq ne have m4: "?d mod 4 = 0" by (auto simp: applier_inv_def)
  have k: "0 < length nxt" "length nxt \<le> 4" using ne sf(2) by simp_all
  have lo: "4 * ((?d + length nxt - 1) div 4) = ?d" using div4_c[OF m4 k] .
  have m4': "(?d + length nxt) mod 4 = 0 \<or> rest = []"
  proof (cases "rest = []")
    case False
    with sf(3) have "length nxt = 4" by simp
    with m4 show ?thesis by simp
  qed simp
  have inv': "applier_inv changes ?s'"
    unfolding applier_inv_def a' d' lo
    using I r0 nb cl_eq m4' ad st by (simp add: applier_inv_def)
  from S inv' a' show ?thesis by (simp add: applier_sound_def)
qed

lemma sound_break:
  assumes S: "applier_sound changes s" and st: "status s = Looping" and nb: "next_batch s = []"
    and w0: "wg s = 0" and sp: "split_next (cl s) = (nxt, rest)" and ne: "nxt = []"
  shows "applier_sound changes (s\<lparr>cl := rest, status := Returned (err s), trace := trace s @ [TaskFinish]\<rparr>)"
proof -
  let ?s' = "s\<lparr>cl := rest, status := Returned (err s), trace := trace s @ [TaskFinish]\<rparr>"
  from S st have I: "applier_inv changes s" by (simp add: applier_sound_def)
  note sf = split_next_facts[OF sp]
  from sf ne have c0: "cl s = []" "rest = []" by auto
  from I nb w0 have r0: "running s = []" by (simp add: applier_inv_def)
  have a': "ndisp changes ?s' = ndisp changes s" "ndone changes ?s' = ndone changes s"
    using c0 by (simp_all add: ndisp_def ndone_def)
  have inv': "applier_inv changes ?s'"
    unfolding applier_inv_def a'
    using I r0 nb c0 by (simp add: applier_inv_def completed_snoc)
  have "barrier (trace s @ [TaskFinish])"
    using S by (intro barrier_snoc_other) (simp_all add: applier_sound_def)
  with S inv' a' show ?thesis by (simp add: applier_sound_def dispatched_snoc)
qed

lemma sound_body_return:
  assumes S: "applier_sound changes s" and st: "status s \<noteq> Crashed" and m: "map_of (running s) i = Some c"
  shows "applier_sound changes (s\<lparr>running := remove_key i (running s), exiting := exiting s @ [i],
                          wg := wg s - 1, env := w, trace := trace s @ [Completed i r]\<rparr>)"
proof -
  let ?s' = "s\<lparr>running := remove_key i (running s), exiting := exiting s @ [i],
                          wg := wg s - 1, env := w, trace := trace s @ [Completed i r]\<rparr>"
  from S st have I: "applier_inv changes s" by (simp add: applier_sound_def)
  have a': "ndisp changes ?s' = ndisp changes s" "ndone changes ?s' = ndone changes s"
    by (simp_all add: ndisp_def ndone_def)
  have ne: "running s \<noteq> []" using m by auto
  have len: "int (length (remove_key i (running s))) = int (length (running s)) - 1"
    using remove_key_length[OF m] by simp
  have sub: "set (remove_key i (running s)) \<subseteq> set (running s)" by (rule remove_key_subset)
  have cov: "\<forall>k < ndisp changes s. k \<in> fst ` set (remove_key i (running s)) \<or> k \<in> completed (trace s @ [Completed i r])"
  proof (intro allI impI)
    fix k assume "k < ndisp changes s"
    with I have "k \<in> fst ` set (running s) \<or> k \<in> completed (trace s)" by (simp add: applier_inv_def)
    then show "k \<in> fst ` set (remove_key i (running s)) \<or> k \<in> completed (trace s @ [Completed i r])"
      using remove_key_other[of k i "running s"] by (cases "k = i") (auto simp: completed_snoc)
  qed
  have inv': "applier_inv changes ?s'"
    unfolding applier_inv_def a'
    using I ne len sub cov by (auto simp: applier_inv_def)
  have "barrier (trace s @ [Completed i r])"
    using S by (intro barrier_snoc_other) (simp_all add: applier_sound_def)
  with S inv' a' show ?thesis by (simp add: applier_sound_def dispatched_snoc)
qed

lemma sound_body_panic:
  assumes S: "applier_sound changes s"
  shows "applier_sound changes (s\<lparr>running := rs, wg := wg s - 1, env := w, status := Crashed,
                          trace := trace s @ [TaskDone i, Panicked i]\<rparr>)"
proof -
  have "barrier ((trace s @ [TaskDone i]) @ [Panicked i])"
    using S by (intro barrier_snoc_other) (simp_all add: applier_sound_def)
  moreover have "dispatched (trace s @ [TaskDone i, Panicked i]) = dispatched (trace s)"
    by (simp add: dispatched_def)
  ultimately show ?thesis using S by (simp add: applier_sound_def ndisp_def)
qed

lemma sound_notify:
  assumes S: "applier_sound changes s" and st: "status s \<noteq> Crashed"
  shows "applier_sound changes (s\<lparr>exiting := ex, trace := trace s @ [TaskDone i]\<rparr>)"
proof -
  let ?s' = "s\<lparr>exiting := ex, trace := trace s @ [TaskDone i]\<rparr>"
  from S st have I: "applier_inv changes s" by (simp add: applier_sound_def)
  have a': "ndisp changes ?s' = ndisp changes s" "ndone changes ?s' = ndone changes s"
    by (simp_all add: ndisp_def ndone_def)
  have inv': "applier_inv changes ?s'"
    unfolding applier_inv_def a' using I by (simp add: applier_inv_def completed_snoc)
  have "barrier (trace s @ [TaskDone i])"
    using S by (intro barrier_snoc_other) (simp_all add: applier_sound_def)
  with S inv' a' show ?thesis by (simp add: applier_sound_def dispatched_snoc)
qed

lemma sound_step:
  assumes S: "applier_sound changes s" and stp: "step g ch s = Some s'"
  shows "applier_sound changes s'"
proof (cases ch)
  case Caller
  with stp have st: "status s = Looping" by (auto split: if_splits)
  show ?thesis
  proof (cases "next_batch s")
    case (Cons x rest)
    obtain i c where x: "x = (i, c)" by (cases x)
    from stp Caller st Cons x
    have "s' = s\<lparr>next_batch := rest, running := running s @ [(i, c)], trace := trace s @ [Dispatched i]\<rparr>"
      by simp
    with sound_dispatch[OF S st] Cons x show ?thesis by simp
  next
    case Nil
    with stp Caller st have w0: "wg s = 0" by (auto split: if_splits)
    obtain nxt rest where sp: "split_next (cl s) = (nxt, rest)" by (cases "split_next (cl s)")
    show ?thesis
    proof (cases "nxt = []")
      case True
      with stp Caller st Nil w0 sp
      have "s' = s\<lparr>cl := rest, status := Returned (err s), trace := trace s @ [TaskFinish]\<rparr>" by simp
      with sound_break[OF S st Nil w0 sp True] show ?thesis by simp
    next
      case False
      with stp Caller st Nil w0 sp
      have "s' = s\<lparr>cl := rest, next_batch := nxt, wg := wg s + int (length nxt)\<rparr>" by simp
      with sound_batch[OF S st Nil w0 sp False] show ?thesis by simp
    qed
  qed
next
  case (Body i)
  with stp have st: "status s \<noteq> Crashed" by (auto split: if_splits)
  from stp Body st obtain c where m: "map_of (running s) i = Some c"
    by (auto split: option.splits)
  obtain o' w where h: "handler g c (env s) = (o', w)" by (cases "handler g c (env s)")
  show ?thesis
  proof (cases o')
    case (Return r)
    with stp Body st m h
    have "s' = s\<lparr>running := remove_key i (running s), exiting := exiting s @ [i],
                          wg := wg s - 1, env := w, trace := trace s @ [Completed i r]\<rparr>" by simp
    with sound_body_return[OF S st m] show ?thesis by simp
  next
    case Panic
    with stp Body st m h
    have "s' = s\<lparr>running := remove_key i (running s), wg := wg s - 1, env := w, status := Crashed,
                          trace := trace s @ [TaskDone i, Panicked i]\<rparr>" by simp
    with sound_body_panic[OF S] show ?thesis by simp
  qed
next
  case (Notify i)
  with stp have st: "status s \<noteq> Crashed" by (auto split: if_splits)
  from stp Notify have "s' = s\<lparr>exiting := remove1 i (exiting s), trace := trace s @ [TaskDone i]\<rparr>"
    by (auto split: if_splits)
  with sound_notify[OF S st] show ?thesis by simp
qed

lemma sound_runs:
  "applier_sound changes s \<Longrightarrow> runs g chs s = Some s' \<Longrightarrow> applier_sound changes s'"
  by (induction chs arbitrary: s) (auto split: option.splits dest: sound_step)













lemma batches_concat: "concat (batches xs) = xs"
proof (induction xs rule: batches.induct)
  case (1 xs)
  obtain nxt rest where sp: "split_next xs = (nxt, rest)" by (cases "split_next xs")
  note sf = split_next_facts[OF sp]
  show ?case
  proof (cases "nxt = []")
    case True
    with sp sf show ?thesis by (subst batches.simps) simp
  next
    case False
    with 1[OF sp[symmetric]] sp sf show ?thesis by (subst batches.simps) simp
  qed
qed

lemma batches_sizes: "b \<in> set (batches xs) \<Longrightarrow> 0 < length b \<and> length b \<le> maxNumOfConcPullTasks"
proof (induction xs rule: batches.induct)
  case (1 xs)
  obtain nxt rest where sp: "split_next xs = (nxt, rest)" by (cases "split_next xs")
  note sf = split_next_facts[OF sp]
  show ?case
  proof (cases "nxt = []")
    case True
    with sp "1.prems" show ?thesis by (subst (asm) batches.simps) simp
  next
    case False
    from "1.prems" sp False have "b = nxt \<or> b \<in> set (batches rest)"
      by (subst (asm) batches.simps) simp
    with 1(1)[OF sp[symmetric]] False sf show ?thesis
      by (auto simp: maxNumOfConcPullTasks_def)
  qed
qed

lemma batches_nth:
  "k < length (batches xs) \<Longrightarrow> batches xs ! k = take 4 (drop (4 * k) xs)"
proof (induction xs arbitrary: k rule: batches.induct)
  case (1 xs)
  obtain nxt rest where sp: "split_next xs = (nxt, rest)" by (cases "split_next xs")
  have nr: "nxt = take 4 xs" "rest = drop 4 xs"
    using sp by (auto simp: split_next_def maxNumOfConcPullTasks_def split: if_splits)
  show ?case
  proof (cases "nxt = []")
    case True
    with sp "1.prems" show ?thesis by (subst (asm) batches.simps) simp
  next
    case False
    then have b: "batches xs = nxt # batches rest" using sp by (subst batches.simps) simp
    show ?thesis
    proof (cases k)
      case 0
      with b nr show ?thesis by simp
    next
      case (Suc k')
      with "1.prems" b have "k' < length (batches rest)" by simp
      from 1(1)[OF sp[symmetric] _ this] False
      have "batches rest ! k' = take 4 (drop (4 * k') rest)" by simp
      with b Suc nr show ?thesis by (simp add: add.commute)
    qed
  qed
qed

lemma batch_member_index:
  assumes k: "k < length (batches (enumerate 0 changes))"
    and m: "(i, c) \<in> set (batches (enumerate 0 changes) ! k)"
  shows "i div 4 = k \<and> i < length changes \<and> c = changes ! i"
proof -
  let ?E = "enumerate 0 changes"
  from m batches_nth[OF k] have "(i, c) \<in> set (take 4 (drop (4 * k) ?E))" by simp
  then obtain m' where m': "m' < length (take 4 (drop (4 * k) ?E))" "take 4 (drop (4 * k) ?E) ! m' = (i, c)"
    by (auto simp: in_set_conv_nth)
  then have lt: "m' < 4" "4 * k + m' < length changes" by auto
  with m' have "?E ! (4 * k + m') = (i, c)" by simp
  with lt have "i = 4 * k + m'" "c = changes ! i" by (auto simp: nth_enumerate_eq)
  with lt show ?thesis by simp
qed

text \<open>
  Claim C1. The loop cuts the list into consecutive batches of at most
  \<^verbatim>\<open>maxNumOfConcPullTasks\<close> changes, none empty, whose concatenation is the list. In
  every run, under every schedule, the handlers are started in the order of the list, and
  when a handler of a later batch is started, every handler of every earlier batch has
  returned its result, nil or an error (the event \<open>Completed\<close>). The progress call
  \<^verbatim>\<open>g.taskDone()\<close> of a handler is deferred before \<^verbatim>\<open>wg.Done()\<close> and so runs
  after it: the event \<open>TaskDone\<close> is not held back by the barrier.
\<close>

theorem playPullChangeList_batch_barrier:
  assumes "runs g chs (init changes w) = Some s"
  shows "concat (batches changes) = changes
       \<and> (\<forall>b \<in> set (batches changes). 0 < length b \<and> length b \<le> maxNumOfConcPullTasks)
       \<and> (\<exists>m \<le> length changes. dispatched (trace s) = [0..<m])
       \<and> (\<forall>k k' i c j c' pre post.
             k < k' \<and> k' < length (batches (enumerate 0 changes))
             \<and> (i, c) \<in> set (batches (enumerate 0 changes) ! k)
             \<and> (j, c') \<in> set (batches (enumerate 0 changes) ! k')
             \<and> trace s = pre @ Dispatched j # post
             \<longrightarrow> (\<exists>r. Completed i r \<in> set pre))"
proof -
  from sound_runs[OF sound_init assms] have S: "applier_sound changes s" .
  then have bar: "barrier (trace s)" and d: "dispatched (trace s) = [0..<ndisp changes s]"
    by (simp_all add: applier_sound_def)
  have "ndisp changes s \<le> length changes" by (simp add: ndisp_def)
  with d have 3: "\<exists>m \<le> length changes. dispatched (trace s) = [0..<m]" by blast
  have 4: "\<forall>k k' i c j c' pre post.
             k < k' \<and> k' < length (batches (enumerate 0 changes))
             \<and> (i, c) \<in> set (batches (enumerate 0 changes) ! k)
             \<and> (j, c') \<in> set (batches (enumerate 0 changes) ! k')
             \<and> trace s = pre @ Dispatched j # post
             \<longrightarrow> (\<exists>r. Completed i r \<in> set pre)"
  proof (intro allI impI)
    fix k k' i c j c' pre post
    assume h: "k < k' \<and> k' < length (batches (enumerate 0 changes))
             \<and> (i, c) \<in> set (batches (enumerate 0 changes) ! k)
             \<and> (j, c') \<in> set (batches (enumerate 0 changes) ! k')
             \<and> trace s = pre @ Dispatched j # post"
    then have "i div 4 = k" "j div 4 = k'"
      using batch_member_index[of k changes i c] batch_member_index[of k' changes j c'] by auto
    with h have "i div 4 < j div 4" by simp
    with bar h have "i \<in> completed pre" unfolding barrier_def by blast
    then show "\<exists>r. Completed i r \<in> set pre" by (simp add: completed_def)
  qed
  have 1: "concat (batches changes) = changes" by (rule batches_concat)
  have 2: "\<forall>b \<in> set (batches changes). 0 < length b \<and> length b \<le> maxNumOfConcPullTasks"
    using batches_sizes by blast
  show ?thesis using 1 2 3 4 by (intro conjI)
qed




lemma sample_trace:
  "map_option trace (runs g0 sched5 (init changes5 w0)) = Some
     ([TaskStart 5, Dispatched 0,
       Completed 0 (Some (PathError ''chtimes'' ''/r/doc'' ENOENT)),
       Dispatched 1, Dispatched 2, Completed 2 None, Dispatched 3, TaskDone 0,
       Completed 3 None, Completed 1 None]
      @ Dispatched 4 #
      [TaskDone 2, Completed 4 None, TaskFinish, TaskDone 1, TaskDone 3, TaskDone 4])"
  by code_simp


lemma sample_batches:
  "batches (enumerate 0 changes5) =
     [[(0, c_doc), (1, c_blob), (2, c_meta), (3, c_dir)], [(4, c_del)]]"
  by (simp add: changes5_def batches.simps split_next_def maxNumOfConcPullTasks_def)

text \<open>
  A run of five changes in the sample world: the change at position 4 is started after
  the four of the first batch have returned, while two of them have not yet reported
  their progress.
\<close>

theorem playPullChangeList_batch_barrier_witness:
  "\<exists>s. runs g0 sched5 (init changes5 w0) = Some s
     \<and> trace s =
          [TaskStart 5, Dispatched 0,
           Completed 0 (Some (PathError ''chtimes'' ''/r/doc'' ENOENT)),
           Dispatched 1, Dispatched 2, Completed 2 None, Dispatched 3, TaskDone 0,
           Completed 3 None, Completed 1 None]
          @ Dispatched 4 #
          [TaskDone 2, Completed 4 None, TaskFinish, TaskDone 1, TaskDone 3, TaskDone 4]
     \<and> (\<exists>r. Completed 1 r \<in> set
          [TaskStart 5, Dispatched 0,
           Completed 0 (Some (PathError ''chtimes'' ''/r/doc'' ENOENT)),
           Dispatched 1, Dispatched 2, Completed 2 None, Dispatched 3, TaskDone 0,
           Completed 3 None, Completed 1 None])
     \<and> concat (batches changes5) = changes5"
proof -
  let ?pre = "[TaskStart 5, Dispatched 0,
           Completed 0 (Some (PathError ''chtimes'' ''/r/doc'' ENOENT)),
           Dispatched 1, Dispatched 2, Completed 2 None, Dispatched 3, TaskDone 0,
           Completed 3 None, Completed 1 None]"
  let ?post = "[TaskDone 2, Completed 4 None, TaskFinish, TaskDone 1, TaskDone 3, TaskDone 4]"
  from sample_trace obtain s where s: "runs g0 sched5 (init changes5 w0) = Some s"
    and ts: "trace s = ?pre @ Dispatched 4 # ?post"
    by (cases "runs g0 sched5 (init changes5 w0)") auto
  note c1 = playPullChangeList_batch_barrier[OF s]
  have cc: "concat (batches changes5) = changes5" by (rule c1[THEN conjunct1])
  have h: "0 < (1::nat) \<and> 1 < length (batches (enumerate 0 changes5))
      \<and> (1, c_blob) \<in> set (batches (enumerate 0 changes5) ! 0)
      \<and> (4, c_del) \<in> set (batches (enumerate 0 changes5) ! 1)
      \<and> trace s = ?pre @ Dispatched 4 # ?post"
    using ts by (simp add: sample_batches)
  from c1[THEN conjunct2, THEN conjunct2, THEN conjunct2, rule_format, OF h]
  have "\<exists>r. Completed 1 r \<in> set ?pre" .
  with s ts cc show ?thesis by blast
qed


end
